theory Spec2Isabelle
  imports Main "HOL-Library.Sublist" "HOL-Library.Word"
begin

section \<open>Strings and numbers as the JavaScript code uses them\<close>

text \<open>
  A string is the list of its code units, one \<^typ>\<open>char\<close> each, so the strings covered
  are those whose code units are below 256 (ASCII and the Latin-1 supplement). On these
  the case mapping, the white space and the word characters defined below are those of
  \<^verbatim>\<open>String.prototype.toLowerCase\<close>, \<^verbatim>\<open>String.prototype.trim\<close> and the regular
  expression classes \<^verbatim>\<open>\s\<close> and \<^verbatim>\<open>\w\<close>. Numbers that the code uses as counters and
  Unix times are \<^typ>\<open>int\<close>.
\<close>

definition digit_char :: "nat \<Rightarrow> char" where
  "digit_char d = ''0123456789'' ! d"

text \<open>Decimal rendering of a non-negative integer, as a template literal renders it.\<close>

fun show_nat :: "nat \<Rightarrow> string" where
  "show_nat n = (if n < 10 then [digit_char n] else show_nat (n div 10) @ [digit_char (n mod 10)])"

declare show_nat.simps [simp del]

definition show_int :: "int \<Rightarrow> string" where
  "show_int i = (if i < 0 then CHR ''-'' # show_nat (nat (- i)) else show_nat (nat i))"

subsection \<open>JSON values and exceptions\<close>

text \<open>
  Parsed JSON. A number that is not an integer is carried as its decimal text. A JavaScript
  value that may be \<^verbatim>\<open>undefined\<close> is an optional JSON value, \<^const>\<open>None\<close> being
  \<^verbatim>\<open>undefined\<close>.
\<close>

datatype json =
    JNull
  | JBool bool
  | JNumber int
  | JDecimal string
  | JString string
  | JArray "json list"
  | JObject "(string \<times> json) list"

text \<open>
  The exceptions the code can meet. The \<^verbatim>\<open>Error\<close> thrown for a reply that is not
  \<^verbatim>\<open>ok\<close> is \<open>ApiError\<close>, with the parts of its message.
\<close>

datatype js_error =
    TypeError
  | SyntaxError
  | TimeoutError
  | Error string
  | ApiError string nat json

section \<open>Rate limiter (rate-limiter.js)\<close>

definition VISITOR_LIMIT :: int where "VISITOR_LIMIT = 10"
definition IP_LIMIT :: int where "IP_LIMIT = 100"
definition HOUR_IN_SECONDS :: int where "HOUR_IN_SECONDS = 3600"
definition DAY_IN_SECONDS :: int where "DAY_IN_SECONDS = 86400"

text \<open>The JSON object \<^verbatim>\<open>{ count, resetAt }\<close> stored under a session or IP key.\<close>

record rate_window =
  count :: int
  resetAt :: int

text \<open>
  The key-value binding. A \<^verbatim>\<open>put\<close> with \<^verbatim>\<open>expirationTtl\<close> stores the value
  together with the time at which the store drops it; a \<^verbatim>\<open>get\<close> of a missing
  or expired key yields \<^verbatim>\<open>null\<close>, here \<^const>\<open>None\<close>.
\<close>

record kv_entry =
  kv_value :: rate_window
  kv_expiration :: int

type_synonym kv_namespace = "string \<rightharpoonup> kv_entry"

definition kv_get :: "kv_namespace \<Rightarrow> int \<Rightarrow> string \<Rightarrow> rate_window option" where
  "kv_get kv now key =
     (case kv key of
        None \<Rightarrow> None
      | Some e \<Rightarrow> if now < kv_expiration e then Some (kv_value e) else None)"

definition kv_put :: "kv_namespace \<Rightarrow> int \<Rightarrow> string \<Rightarrow> rate_window \<Rightarrow> int \<Rightarrow> kv_namespace" where
  "kv_put kv now key v expirationTtl =
     kv(key \<mapsto> \<lparr>kv_value = v, kv_expiration = now + expirationTtl\<rparr>)"

record rate_limit_result =
  allowed :: bool
  reason :: "string option"
  retryAfter :: "int option"

definition session_limit_reason :: string where
  "session_limit_reason =
     ''Rate limit exceeded. You can send '' @ show_int VISITOR_LIMIT @ '' messages per hour.''"

definition ip_limit_reason :: string where
  "ip_limit_reason =
     ''IP rate limit exceeded. Maximum '' @ show_int IP_LIMIT @ '' messages per day.''"

definition rate_denied :: "string \<Rightarrow> int \<Rightarrow> rate_limit_result" where
  "rate_denied why secs = \<lparr>allowed = False, reason = Some why, retryAfter = Some secs\<rparr>"

definition rate_allowed :: rate_limit_result where
  "rate_allowed = \<lparr>allowed = True, reason = None, retryAfter = None\<rparr>"

text \<open>The store keys \<^verbatim>\<open>`session:${sessionId}`\<close> and \<^verbatim>\<open>`ip:${ipAddress}`\<close>.\<close>

definition sessionKey :: "string \<Rightarrow> string" where
  "sessionKey sessionId = ''session:'' @ sessionId"

definition ipKey :: "string \<Rightarrow> string" where
  "ipKey ipAddress = ''ip:'' @ ipAddress"

text \<open>
  \<^verbatim>\<open>checkRateLimit(sessionId, ipAddress, kv)\<close>. The clock reading
  \<^verbatim>\<open>Date.now()\<close> (milliseconds) is the argument \<open>dateNow\<close>; the store is passed in
  and returned. The early \<^verbatim>\<open>return\<close> of the session check is the \<^const>\<open>Inl\<close>
  branch of the first case, which leaves the store as it was.
\<close>

definition checkRateLimit ::
  "string \<Rightarrow> string \<Rightarrow> kv_namespace \<Rightarrow> int \<Rightarrow> rate_limit_result \<times> kv_namespace" where
  "checkRateLimit sessionId ipAddress kv dateNow =
     (let now = dateNow div 1000;
          sessionData = kv_get kv now (sessionKey sessionId)
      in
      case (case sessionData of
              Some d \<Rightarrow>
                if now < resetAt d \<and> VISITOR_LIMIT \<le> count d
                then Inl (rate_denied session_limit_reason (resetAt d - now))
                else if now < resetAt d
                then Inr (kv_put kv now (sessionKey sessionId)
                            \<lparr>count = count d + 1, resetAt = resetAt d\<rparr> HOUR_IN_SECONDS)
                else Inr (kv_put kv now (sessionKey sessionId)
                            \<lparr>count = 1, resetAt = now + HOUR_IN_SECONDS\<rparr> HOUR_IN_SECONDS)
            | None \<Rightarrow>
                Inr (kv_put kv now (sessionKey sessionId)
                       \<lparr>count = 1, resetAt = now + HOUR_IN_SECONDS\<rparr> HOUR_IN_SECONDS))
      of
        Inl denial \<Rightarrow> (denial, kv)
      | Inr kv1 \<Rightarrow>
          (let ipData = kv_get kv1 now (ipKey ipAddress)
           in
           case ipData of
             Some d \<Rightarrow>
               if now < resetAt d \<and> IP_LIMIT \<le> count d
               then (rate_denied ip_limit_reason (resetAt d - now), kv1)
               else if now < resetAt d
               then (rate_allowed,
                     kv_put kv1 now (ipKey ipAddress) \<lparr>count = count d + 1, resetAt = resetAt d\<rparr> DAY_IN_SECONDS)
               else (rate_allowed,
                     kv_put kv1 now (ipKey ipAddress) \<lparr>count = 1, resetAt = now + DAY_IN_SECONDS\<rparr> DAY_IN_SECONDS)
           | None \<Rightarrow>
               (rate_allowed,
                kv_put kv1 now (ipKey ipAddress) \<lparr>count = 1, resetAt = now + DAY_IN_SECONDS\<rparr> DAY_IN_SECONDS)))"

text \<open>
  Names for the two denial tests and the two writes of \<open>checkRateLimit\<close>, used to state
  its properties; \<open>checkRateLimit\<close> above is written out as the source has it, and the
  lemmas \<open>checkRateLimit_session_denied\<close> and \<open>checkRateLimit_session_admitted\<close> relate
  the two.
\<close>

definition session_denies :: "kv_namespace \<Rightarrow> int \<Rightarrow> string \<Rightarrow> bool" where
  "session_denies kv now sessionId =
     (case kv_get kv now (sessionKey sessionId) of
        Some d \<Rightarrow> now < resetAt d \<and> 10 \<le> count d
      | None \<Rightarrow> False)"

definition ip_denies :: "kv_namespace \<Rightarrow> int \<Rightarrow> string \<Rightarrow> bool" where
  "ip_denies kv now ipAddress =
     (case kv_get kv now (ipKey ipAddress) of
        Some d \<Rightarrow> now < resetAt d \<and> 100 \<le> count d
      | None \<Rightarrow> False)"

definition next_window :: "rate_window option \<Rightarrow> int \<Rightarrow> int \<Rightarrow> rate_window" where
  "next_window stored now windowLength =
     (case stored of
        Some d \<Rightarrow> if now < resetAt d then \<lparr>count = count d + 1, resetAt = resetAt d\<rparr>
                  else \<lparr>count = 1, resetAt = now + windowLength\<rparr>
      | None \<Rightarrow> \<lparr>count = 1, resetAt = now + windowLength\<rparr>)"

definition session_written :: "kv_namespace \<Rightarrow> int \<Rightarrow> string \<Rightarrow> kv_namespace" where
  "session_written kv now sessionId =
     kv_put kv now (sessionKey sessionId)
       (next_window (kv_get kv now (sessionKey sessionId)) now 3600) 3600"

definition ip_written :: "kv_namespace \<Rightarrow> int \<Rightarrow> string \<Rightarrow> kv_namespace" where
  "ip_written kv now ipAddress =
     kv_put kv now (ipKey ipAddress)
       (next_window (kv_get kv now (ipKey ipAddress)) now 86400) 86400"


text \<open>
  A sequence of requests, each a session identifier, an IP address and a clock reading,
  run through \<open>checkRateLimit\<close> one after the other on the same store.
\<close>

fun checkRateLimit_all ::
  "kv_namespace \<Rightarrow> (string \<times> string \<times> int) list \<Rightarrow> rate_limit_result list \<times> kv_namespace" where
  "checkRateLimit_all kv [] = ([], kv)"
| "checkRateLimit_all kv ((sessionId, ipAddress, dateNow) # requests) =
     (let (result, kv1) = checkRateLimit sessionId ipAddress kv dateNow;
          (results, kv2) = checkRateLimit_all kv1 requests
      in (result # results, kv2))"

text \<open>
  Counting the requests of a sequence: those of one session; those of one IP address; and
  those of one IP address that reach the IP test, which are the ones that the session
  window does not refuse (a request refused by the session limit returns before the IP
  record is read).
\<close>

definition session_requests :: "string \<Rightarrow> (string \<times> string \<times> int) list \<Rightarrow> nat" where
  "session_requests sessionId requests =
     length (filter (\<lambda>(s, a, t). s = sessionId) requests)"

definition ip_requests :: "string \<Rightarrow> (string \<times> string \<times> int) list \<Rightarrow> nat" where
  "ip_requests ipAddress requests = length (filter (\<lambda>(s, a, t). a = ipAddress) requests)"

definition ip_requests_tested ::
  "string \<Rightarrow> kv_namespace \<Rightarrow> (string \<times> string \<times> int) list \<Rightarrow> nat" where
  "ip_requests_tested ipAddress kv requests =
     length (filter (\<lambda>((s, a, t), result). a = ipAddress \<and> reason result \<noteq> Some session_limit_reason)
               (zip requests (fst (checkRateLimit_all kv requests))))"

text \<open>
  Streams of requests, used as concrete inputs: \<open>n\<close> requests of one session, and
  \<open>n\<close> requests from one IP address made by sessions of ten requests each; in both the
  requests are a minute apart.
\<close>

definition session_traffic :: "nat \<Rightarrow> (string \<times> string \<times> int) list" where
  "session_traffic n = map (\<lambda>k. (''s1'', ''10.0.0.1'', 100000000 + 60000 * int k)) [0..<n]"

definition ip_traffic :: "nat \<Rightarrow> (string \<times> string \<times> int) list" where
  "ip_traffic n =
     map (\<lambda>k. (''u'' @ show_nat (k div 10), ''10.0.0.1'', 100000000 + 60000 * int k)) [0..<n]"

text \<open>
  The same stream from one IP address, except that its first session makes eleven
  requests, the last of which the session limit refuses.
\<close>

definition ip_traffic_refused :: "nat \<Rightarrow> (string \<times> string \<times> int) list" where
  "ip_traffic_refused n =
     map (\<lambda>k. (''u'' @ show_nat ((k - 1) div 10), ''10.0.0.1'', 100000000 + 60000 * int k)) [0..<n]"

section \<open>Retrieval (rag-retrieval.js)\<close>

subsection \<open>String operations\<close>

text \<open>
  \<^verbatim>\<open>s.toLowerCase()\<close>. The code units below 256 that it changes are the letters
  \<^verbatim>\<open>A\<close> to \<^verbatim>\<open>Z\<close> (65 to 90) and the accented capitals 192 to 222 other than the
  multiplication sign 215; each moves up by 32.
\<close>

definition is_upper :: "char \<Rightarrow> bool" where
  "is_upper c =
     (let n = (of_char c :: nat)
      in (65 \<le> n \<and> n \<le> 90) \<or> (192 \<le> n \<and> n \<le> 222 \<and> n \<noteq> 215))"

definition lower_char :: "char \<Rightarrow> char" where
  "lower_char c = (if is_upper c then char_of ((of_char c :: nat) + 32) else c)"

definition toLowerCase :: "string \<Rightarrow> string" where
  "toLowerCase s = map lower_char s"

text \<open>
  The classes \<^verbatim>\<open>\w\<close> and \<^verbatim>\<open>\s\<close> of the regular expressions: the ASCII letters,
  digits and underscore; and tab, line feed, vertical tab, form feed, carriage return,
  space and the no-break space 160, which are also what \<^verbatim>\<open>trim\<close> strips.
\<close>

definition is_word_char :: "char \<Rightarrow> bool" where
  "is_word_char c =
     (let n = (of_char c :: nat)
      in (48 \<le> n \<and> n \<le> 57) \<or> (65 \<le> n \<and> n \<le> 90) \<or> (97 \<le> n \<and> n \<le> 122) \<or> n = 95)"

definition is_space :: "char \<Rightarrow> bool" where
  "is_space c = ((of_char c :: nat) \<in> {9, 10, 11, 12, 13, 32, 160})"

text \<open>\<^verbatim>\<open>s.includes(k)\<close>: \<open>k\<close> occurs in \<open>s\<close> as a contiguous substring.\<close>

fun str_includes :: "string \<Rightarrow> string \<Rightarrow> bool" where
  "str_includes [] k = (k = [])"
| "str_includes (c # cs) k = (prefix k (c # cs) \<or> str_includes cs k)"

text \<open>\<^verbatim>\<open>s.startsWith(p)\<close>.\<close>

definition startsWith :: "string \<Rightarrow> string \<Rightarrow> bool" where
  "startsWith s p = prefix p s"

text \<open>\<^verbatim>\<open>xs.join(sep)\<close>.\<close>

fun join :: "string \<Rightarrow> string list \<Rightarrow> string" where
  "join sep [] = []"
| "join sep [x] = x"
| "join sep (x # y # ys) = x @ sep @ join sep (y # ys)"

text \<open>\<^verbatim>\<open>s.trim()\<close>.\<close>

definition trim :: "string \<Rightarrow> string" where
  "trim s = rev (dropWhile is_space (rev (dropWhile is_space s)))"

text \<open>
  \<^verbatim>\<open>s.replace(/[^\w\s]/g, ' ')\<close> and \<^verbatim>\<open>s.split(/\s+/)\<close>. A split yields the text
  between maximal runs of white space, so a string that starts or ends with white space
  yields an empty first or last piece, and the empty string yields one empty piece.
\<close>

definition replace_punctuation :: "string \<Rightarrow> string" where
  "replace_punctuation s = map (\<lambda>c. if is_word_char c \<or> is_space c then c else CHR '' '') s"

function split_whitespace :: "string \<Rightarrow> string list" where
  "split_whitespace s =
     (let piece = takeWhile (\<lambda>c. \<not> is_space c) s;
          rest = dropWhile (\<lambda>c. \<not> is_space c) s
      in if rest = [] then [piece] else piece # split_whitespace (dropWhile is_space rest))"
  by pat_completeness auto
termination
proof (relation "measure length")
  show "wf (measure length)" by simp
next
  fix s :: string and piece rest
  assume r: "rest = dropWhile (\<lambda>c. \<not> is_space c) s" and ne: "rest \<noteq> []"
  from ne have "is_space (hd rest)"
    unfolding r by (metis hd_dropWhile)
  with ne have "dropWhile is_space rest = dropWhile is_space (tl rest)"
    by (cases rest) simp_all
  moreover have "length (dropWhile is_space (tl rest)) \<le> length (tl rest)"
    by (rule length_dropWhile_le)
  ultimately have "length (dropWhile is_space rest) \<le> length (tl rest)"
    by simp
  also from ne have "\<dots> < length rest" by (cases rest) simp_all
  also have "\<dots> \<le> length s" unfolding r by (rule length_dropWhile_le)
  finally show "(dropWhile is_space rest, s) \<in> measure length" by simp
qed

declare split_whitespace.simps [simp del]

subsection \<open>Keyword extraction\<close>

definition stopWords :: "string list" where
  "stopWords =
     [''a'', ''an'', ''and'', ''are'', ''as'', ''at'', ''be'', ''by'', ''for'',
      ''from'', ''has'', ''he'', ''she'', ''in'', ''is'', ''it'', ''its'', ''of'', ''on'',
      ''that'', ''the'', ''to'', ''was'', ''will'', ''with'', ''what'', ''when'',
      ''where'', ''who'', ''how'', ''does'', ''did'', ''can'', ''could'', ''would'',
      ''should'', ''about'', ''me'', ''tell'', ''you'', ''your'', ''my'', ''i'',
      ''do'', ''have'', ''been'', ''their'', ''they'', ''this'', ''which'', ''some'']"

definition extractKeywords :: "string \<Rightarrow> string list" where
  "extractKeywords userQuestion =
     filter (\<lambda>word. length word > 2 \<and> word \<notin> set stopWords)
       (split_whitespace (replace_punctuation (toLowerCase userQuestion)))"

subsection \<open>Knowledge entries\<close>

text \<open>
  An entry is a parsed JSON object; a field that the object does not have reads as
  \<^verbatim>\<open>undefined\<close>, here \<^const>\<open>None\<close>.
\<close>

record entry =
  entry_id :: string
  type :: "string option"
  topic :: "string option"
  title :: "string option"
  content :: "string option"
  question :: "string option"
  answer :: "string option"
  confidence :: "string option"
  tags :: "string list option"

text \<open>Truthiness of a string-valued field: present and not the empty string.\<close>

definition truthy :: "string option \<Rightarrow> bool" where
  "truthy v = (case v of None \<Rightarrow> False | Some s \<Rightarrow> s \<noteq> [])"

text \<open>\<^verbatim>\<open>a || b\<close> on string-valued fields, and \<^verbatim>\<open>a || ''\<close>.\<close>

definition or_else :: "string option \<Rightarrow> string option \<Rightarrow> string option" where
  "or_else a b = (if truthy a then a else b)"

definition or_empty :: "string option \<Rightarrow> string" where
  "or_empty a = (case a of None \<Rightarrow> [] | Some s \<Rightarrow> s)"

subsection \<open>Scoring\<close>

definition scoreEntry :: "entry \<Rightarrow> string list \<Rightarrow> int" where
  "scoreEntry entry keywords =
     (let content = toLowerCase (or_empty (or_else (content entry) (answer entry)));
          topic = toLowerCase (or_empty (topic entry));
          title = toLowerCase (or_empty (title entry));
          tags = map toLowerCase (case tags entry of None \<Rightarrow> [] | Some ts \<Rightarrow> ts);
          score = foldl (\<lambda>score keyword.
                     (let score = (if str_includes content keyword then score + 3 else score);
                          score = (if str_includes topic keyword then score + 2 else score);
                          score = (if str_includes title keyword then score + 2 else score);
                          score = (if list_ex (\<lambda>tag. str_includes tag keyword) tags
                                   then score + 1 else score)
                      in score)) 0 keywords;
          score = (if type entry = Some ''qa_pair'' \<and> truthy (question entry)
                   then (let questionLower = toLowerCase (or_empty (question entry))
                         in foldl (\<lambda>score kw. if str_includes questionLower kw then score + 5 else score)
                              score keywords)
                   else score);
          score = (if confidence entry = Some ''verified'' then score + 1 else score)
      in score)"

subsection \<open>Retrieval\<close>

text \<open>
  \<^verbatim>\<open>xs.slice(0, n)\<close> for an integer \<open>n\<close>: the first \<open>n\<close> elements, and for a
  negative \<open>n\<close> the elements before position \<open>length + n\<close>, that is, all but the
  last \<open>- n\<close>.
\<close>

definition slice0 :: "'a list \<Rightarrow> int \<Rightarrow> 'a list" where
  "slice0 xs n =
     (if n < 0 then take (nat (int (length xs) + n)) xs else take (nat n) xs)"

text \<open>
  \<^verbatim>\<open>retrieveEntries(question, knowledgeBase, topN)\<close>. \<open>topN\<close> is any integer
  (5 when the caller leaves it out; the worker passes 5). \<^verbatim>\<open>Array.prototype.sort\<close>
  is stable, and the comparator \<^verbatim>\<open>(a, b) => b.score - a.score\<close> orders by descending
  score: this is the stable sort on the negated score.
\<close>

definition retrieveEntries :: "string \<Rightarrow> entry list \<Rightarrow> int \<Rightarrow> entry list" where
  "retrieveEntries userQuestion knowledgeBase topN =
     (let keywords = extractKeywords userQuestion
      in if length keywords = 0
         then slice0
                (filter (\<lambda>e. type e = Some ''narrative'' \<and> topic e = Some ''about'') knowledgeBase)
                topN
         else (let scored =
                     sort_key (\<lambda>item. - snd item)
                       (filter (\<lambda>item. snd item > 0)
                          (map (\<lambda>entry. (entry, scoreEntry entry keywords)) knowledgeBase))
               in map fst (slice0 scored topN)))"

subsection \<open>Context formatting\<close>

text \<open>A field interpolated into a template literal.\<close>

definition interpolate :: "string option \<Rightarrow> string" where
  "interpolate v = (case v of None \<Rightarrow> ''undefined'' | Some s \<Rightarrow> s)"

text \<open>
  The body of the \<^verbatim>\<open>map\<close> callback of \<^verbatim>\<open>formatEntriesForContext\<close>.
  \<^verbatim>\<open>entry.tags.join\<close> throws a \<^verbatim>\<open>TypeError\<close> on an entry without tags.
\<close>

definition format_entry :: "entry \<Rightarrow> nat \<Rightarrow> js_error + string" where
  "format_entry entry index =
     (let formatted = ''[Entry '' @ show_nat (index + 1) @ '']\<newline>'';
          formatted = formatted @ ''Type: '' @ interpolate (type entry) @ ''\<newline>'';
          formatted = formatted @ ''Topic: '' @ interpolate (topic entry) @ ''\<newline>'';
          formatted = (if truthy (title entry)
                       then formatted @ ''Title: '' @ interpolate (title entry) @ ''\<newline>''
                       else formatted);
          formatted = (if type entry = Some ''qa_pair''
                       then formatted @ ''Question: '' @ interpolate (question entry) @ ''\<newline>''
                                      @ ''Answer: '' @ interpolate (answer entry) @ ''\<newline>''
                       else formatted @ ''Content: '' @ interpolate (content entry) @ ''\<newline>'');
          formatted = formatted @ ''Confidence: '' @ interpolate (confidence entry) @ ''\<newline>''
      in case tags entry of
           None \<Rightarrow> Inl TypeError
         | Some ts \<Rightarrow> Inr (formatted @ ''Tags: '' @ join '', '' ts @ ''\<newline>''))"

text \<open>\<^verbatim>\<open>entries.map((entry, index) => ...)\<close>, stopping at the first exception.\<close>

fun map_entries :: "nat \<Rightarrow> entry list \<Rightarrow> js_error + string list" where
  "map_entries index [] = Inr []"
| "map_entries index (entry # entries) =
     (case format_entry entry index of
        Inl err \<Rightarrow> Inl err
      | Inr block \<Rightarrow>
          (case map_entries (Suc index) entries of
             Inl err \<Rightarrow> Inl err
           | Inr blocks \<Rightarrow> Inr (block # blocks)))"

definition divider :: string where
  "divider = ''\<newline>---\<newline>\<newline>''"

definition formatEntriesForContext :: "entry list \<Rightarrow> js_error + string" where
  "formatEntriesForContext entries =
     (case map_entries 0 entries of
        Inl err \<Rightarrow> Inl err
      | Inr blocks \<Rightarrow> Inr (join divider blocks))"

subsection \<open>Names used to state the properties of retrieval\<close>

text \<open>
  The list that \<open>retrieveEntries\<close> truncates, written on entries rather than on
  entry-score pairs (lemma \<open>retrieveEntries_keywords\<close>); the points of the first loop
  of \<open>scoreEntry\<close> and the keywords counted by its second loop (lemma \<open>scoreEntry_parts\<close>).
\<close>

definition ranked :: "string list \<Rightarrow> entry list \<Rightarrow> entry list" where
  "ranked keywords knowledgeBase =
     sort_key (\<lambda>e. - scoreEntry e keywords) (filter (\<lambda>e. scoreEntry e keywords > 0) knowledgeBase)"

definition field_points :: "entry \<Rightarrow> string list \<Rightarrow> int" where
  "field_points entry keywords =
     (let content = toLowerCase (or_empty (or_else (content entry) (answer entry)));
          topic = toLowerCase (or_empty (topic entry));
          title = toLowerCase (or_empty (title entry));
          tags = map toLowerCase (case tags entry of None \<Rightarrow> [] | Some ts \<Rightarrow> ts)
      in foldl (\<lambda>score keyword.
                     (let score = (if str_includes content keyword then score + 3 else score);
                          score = (if str_includes topic keyword then score + 2 else score);
                          score = (if str_includes title keyword then score + 2 else score);
                          score = (if list_ex (\<lambda>tag. str_includes tag keyword) tags
                                   then score + 1 else score)
                      in score)) 0 keywords)"

definition question_matches :: "entry \<Rightarrow> string list \<Rightarrow> string list" where
  "question_matches entry keywords =
     filter (str_includes (toLowerCase (or_empty (question entry)))) keywords"



text \<open>
  The index markers of a formatted context: for each occurrence of \<^verbatim>\<open>[Entry \<close> in the
  text, the characters between it and the next \<^verbatim>\<open>]\<close>.
\<close>

fun entry_markers :: "string \<Rightarrow> string list" where
  "entry_markers [] = []"
| "entry_markers (c # cs) =
     (if prefix ''[Entry '' (c # cs)
      then takeWhile (\<lambda>x. x \<noteq> CHR '']'') (drop 7 (c # cs)) # entry_markers cs
      else entry_markers cs)"

text \<open>
  An entry is well formed for formatting when it has its tags, the one field whose absence
  makes \<open>format_entry\<close> throw. The texts that \<open>format_entry\<close> writes into the block of
  an entry are its printed fields; a text is marker free when \<^verbatim>\<open>[Entry \<close> does not
  occur in it.
\<close>

definition well_formed :: "entry \<Rightarrow> bool" where
  "well_formed e = (tags e \<noteq> None)"

definition printed_fields :: "entry \<Rightarrow> string list" where
  "printed_fields e =
     [interpolate (type e), interpolate (topic e)]
     @ (if truthy (title e) then [interpolate (title e)] else [])
     @ (if type e = Some ''qa_pair'' then [interpolate (question e), interpolate (answer e)]
        else [interpolate (content e)])
     @ [interpolate (confidence e)]
     @ (case tags e of None \<Rightarrow> [] | Some ts \<Rightarrow> ts)"

definition marker_free :: "string \<Rightarrow> bool" where
  "marker_free s = (\<not> str_includes s ''[Entry '')"

text \<open>Small entries, used as concrete inputs.\<close>

definition ex_fact :: entry where
  "ex_fact = \<lparr>entry_id = ''f1'', type = Some ''fact'', topic = Some ''skills'', title = None,
     content = Some ''Knows Python'', question = None, answer = None,
     confidence = Some ''verified'', tags = Some [''python'']\<rparr>"

definition ex_qa :: entry where
  "ex_qa = \<lparr>entry_id = ''q1'', type = Some ''qa_pair'', topic = Some ''skills'', title = None,
     content = None, question = Some ''Which Python?'', answer = Some ''Knows Python'',
     confidence = Some ''verified'', tags = Some [''python'']\<rparr>"

definition ex_services_qa :: entry where
  "ex_services_qa = \<lparr>entry_id = ''q2'', type = Some ''qa_pair'', topic = Some ''services'',
     title = None, content = None, question = Some ''What services does Jane offer?'',
     answer = Some ''Jane offers consulting.'',
     confidence = Some ''verified'', tags = Some [''consulting'', ''services'']\<rparr>"

definition ex_services_fact :: entry where
  "ex_services_fact = \<lparr>entry_id = ''f2'', type = Some ''fact'', topic = Some ''services'',
     title = None, content = Some ''Jane offers consulting.'', question = None, answer = None,
     confidence = Some ''verified'', tags = Some [''consulting'', ''services'']\<rparr>"

definition ex_ref :: entry where
  "ex_ref = \<lparr>entry_id = ''r1'', type = Some ''fact'', topic = Some ''portfolio'', title = None,
     content = Some ''See [Entry 7] of the portfolio'', question = None, answer = None,
     confidence = Some ''verified'', tags = Some [''portfolio'']\<rparr>"

definition ex_inferred :: entry where
  "ex_inferred = \<lparr>entry_id = ''i1'', type = Some ''fact'', topic = Some ''cloud'', title = None,
     content = Some ''AWS'', question = None, answer = None,
     confidence = Some ''inferred'', tags = Some [''aws'']\<rparr>"


section \<open>Generation (ai-integration.js)\<close>

subsection \<open>Operations on JSON values\<close>

fun js_truthy :: "json option \<Rightarrow> bool" where
  "js_truthy None = False"
| "js_truthy (Some JNull) = False"
| "js_truthy (Some (JBool b)) = b"
| "js_truthy (Some (JNumber n)) = (n \<noteq> 0)"
| "js_truthy (Some (JDecimal d)) = True"
| "js_truthy (Some (JString s)) = (s \<noteq> [])"
| "js_truthy (Some (JArray xs)) = True"
| "js_truthy (Some (JObject kvs)) = True"

text \<open>
  Member access \<^verbatim>\<open>v.name\<close> for a data property: a \<^verbatim>\<open>TypeError\<close> on
  \<^verbatim>\<open>undefined\<close> and \<^verbatim>\<open>null\<close>; on an object the value of the key (the last one,
  when the text repeated it); on arrays and strings only \<^verbatim>\<open>length\<close>.
\<close>

fun js_get :: "json option \<Rightarrow> string \<Rightarrow> js_error + json option" where
  "js_get None name = Inl TypeError"
| "js_get (Some JNull) name = Inl TypeError"
| "js_get (Some (JObject kvs)) name = Inr (map_of (rev kvs) name)"
| "js_get (Some (JArray xs)) name =
     Inr (if name = ''length'' then Some (JNumber (int (length xs))) else None)"
| "js_get (Some (JString s)) name =
     Inr (if name = ''length'' then Some (JNumber (int (length s))) else None)"
| "js_get (Some v) name = Inr None"

text \<open>Element access \<^verbatim>\<open>v[0]\<close>.\<close>

fun js_first :: "json option \<Rightarrow> js_error + json option" where
  "js_first None = Inl TypeError"
| "js_first (Some JNull) = Inl TypeError"
| "js_first (Some (JArray xs)) = Inr (case xs of [] \<Rightarrow> None | x # _ \<Rightarrow> Some x)"
| "js_first (Some (JString s)) = Inr (case s of [] \<Rightarrow> None | c # _ \<Rightarrow> Some (JString [c]))"
| "js_first (Some (JObject kvs)) = Inr (map_of (rev kvs) ''0'')"
| "js_first (Some v) = Inr None"

subsection \<open>The fetch interface\<close>

text \<open>
  What the code hands to \<^verbatim>\<open>fetch\<close>: the URL and the init object, whose
  \<^verbatim>\<open>signal\<close>, when given as \<^verbatim>\<open>AbortSignal.timeout(ms)\<close>, is the number of
  milliseconds. What the remote side does is an input of the model: how long it takes and
  what comes back. With a timeout signal the call is rejected once that time has passed
  without a reply; without one the reply is delivered whenever it comes.
\<close>

record request_init =
  init_method :: string
  init_headers :: "(string \<times> string) list"
  init_body :: json
  signal :: "nat option"

record fetch_call =
  call_url :: string
  call_init :: request_init

record http_response =
  http_status :: nat
  http_json :: "json option"

datatype fetch_outcome = NetworkFailure | HttpReply http_response

record remote_reply =
  latency_ms :: nat
  outcome :: fetch_outcome

definition fetch :: "request_init \<Rightarrow> remote_reply \<Rightarrow> js_error + http_response" where
  "fetch init reply =
     (case signal init of
        Some ms \<Rightarrow>
          if ms \<le> latency_ms reply then Inl TimeoutError
          else (case outcome reply of NetworkFailure \<Rightarrow> Inl TypeError | HttpReply r \<Rightarrow> Inr r)
      | None \<Rightarrow>
          (case outcome reply of NetworkFailure \<Rightarrow> Inl TypeError | HttpReply r \<Rightarrow> Inr r))"

text \<open>\<^verbatim>\<open>response.ok\<close>.\<close>

definition ok :: "http_response \<Rightarrow> bool" where
  "ok r = (200 \<le> http_status r \<and> http_status r \<le> 299)"

subsection \<open>Provider configurations\<close>

text \<open>
  The prompt text. Its one character above 255, the dash of rule 6, stands here as the
  three bytes of its UTF-8 form; the text is only passed on to the provider.
\<close>

definition SYSTEM_PROMPT :: string where
  \<open>SYSTEM_PROMPT =
     ''You are an AI assistant for [YOUR NAME], helping visitors learn about their work, experience, and expertise.\<newline>\<newline>'' @
     ''CRITICAL RULES:\<newline>'' @
     ''1. ONLY answer questions using the provided knowledge base entries\<newline>'' @
     ''2. If information isn't in the knowledge base, say "I don't have that information in my knowledge base"\<newline>'' @
     ''3. Be professional but approachable\<newline>'' @
     ''4. Keep responses concise (2-3 paragraphs maximum)\<newline>'' @
     ''5. Always offer a helpful next step\<newline>'' @
     ''6. Be honest about limitations '' @ [CHR 0xE2, CHR 0x80, CHR 0x94] @ '' don't guess or make up information\<newline>\<newline>'' @
     ''TONE:\<newline>'' @
     ''- Professional but conversational\<newline>'' @
     ''- Direct and helpful\<newline>'' @
     ''- No unnecessary fluff\<newline>'' @
     ''- Action-oriented\<newline>\<newline>'' @
     ''CONVERSATION ENDINGS:\<newline>'' @
     ''Always conclude with a helpful next step, such as:\<newline>'' @
     ''- Suggesting they contact [YOUR NAME] directly\<newline>'' @
     ''- Offering to answer another question\<newline>'' @
     ''- Pointing them toward a specific page or resource\<newline>\<newline>'' @
     ''Remember: You represent [YOUR NAME]'s professional brand. Be helpful, honest, and stick to the knowledge base.''\<close>

record chat_message =
  role :: string
  message_content :: string

definition message_json :: "chat_message \<Rightarrow> json" where
  "message_json m = JObject [(''role'', JString (role m)), (''content'', JString (message_content m))]"

record provider_config =
  apiUrl :: string
  defaultModel :: string
  authHeader :: "string option \<Rightarrow> string"
  buildPayload :: "chat_message list \<Rightarrow> string \<Rightarrow> json \<Rightarrow> json \<Rightarrow> json"
  extractResponse :: "json \<Rightarrow> js_error + string"

definition openai_extractResponse :: "json \<Rightarrow> js_error + string" where
  "openai_extractResponse data =
     (case js_get (Some data) ''choices'' of
        Inl err \<Rightarrow> Inl err
      | Inr choices \<Rightarrow>
          if \<not> js_truthy choices \<or> js_get choices ''length'' = Inr (Some (JNumber 0))
          then Inl (Error ''No response from OpenAI API'')
          else (case js_first choices of
                  Inl err \<Rightarrow> Inl err
                | Inr first \<Rightarrow>
                    (case js_get first ''message'' of
                       Inl err \<Rightarrow> Inl err
                     | Inr message \<Rightarrow>
                         (case js_get message ''content'' of
                            Inl err \<Rightarrow> Inl err
                          | Inr (Some (JString text)) \<Rightarrow> Inr (trim text)
                          | Inr _ \<Rightarrow> Inl TypeError))))"

definition anthropic_extractResponse :: "json \<Rightarrow> js_error + string" where
  "anthropic_extractResponse data =
     (case js_get (Some data) ''content'' of
        Inl err \<Rightarrow> Inl err
      | Inr blocks \<Rightarrow>
          if \<not> js_truthy blocks \<or> js_get blocks ''length'' = Inr (Some (JNumber 0))
          then Inl (Error ''No response from Anthropic API'')
          else (case js_first blocks of
                  Inl err \<Rightarrow> Inl err
                | Inr first \<Rightarrow>
                    (case js_get first ''text'' of
                       Inl err \<Rightarrow> Inl err
                     | Inr (Some (JString text)) \<Rightarrow> Inr (trim text)
                     | Inr _ \<Rightarrow> Inl TypeError)))"

definition openai :: provider_config where
  "openai =
     \<lparr>apiUrl = ''https://api.openai.com/v1/chat/completions'',
      defaultModel = ''gpt-3.5-turbo'',
      authHeader = (\<lambda>key. ''Bearer '' @ interpolate key),
      buildPayload = (\<lambda>messages model temperature maxTokens.
        JObject [(''model'', JString model),
                 (''messages'', JArray (map message_json messages)),
                 (''temperature'', temperature),
                 (''max_tokens'', maxTokens),
                 (''top_p'', JNumber 1),
                 (''frequency_penalty'', JNumber 0),
                 (''presence_penalty'', JNumber 0)]),
      extractResponse = openai_extractResponse\<rparr>"

definition anthropic :: provider_config where
  "anthropic =
     \<lparr>apiUrl = ''https://api.anthropic.com/v1/messages'',
      defaultModel = ''claude-haiku-4-5-20251001'',
      authHeader = (\<lambda>key. interpolate key),
      buildPayload = (\<lambda>messages model temperature maxTokens.
        (let systemMessages = filter (\<lambda>m. role m = ''system'') messages;
             nonSystemMessages = filter (\<lambda>m. role m \<noteq> ''system'') messages;
             systemText = join ''\<newline>\<newline>'' (map message_content systemMessages)
         in JObject [(''model'', JString model),
                     (''max_tokens'', maxTokens),
                     (''temperature'', temperature),
                     (''system'', JString systemText),
                     (''messages'', JArray (map message_json nonSystemMessages))])),
      extractResponse = anthropic_extractResponse\<rparr>"

text \<open>
  \<^verbatim>\<open>PROVIDERS[providerName]\<close>: one of the two configurations, or a member inherited
  from \<^verbatim>\<open>Object.prototype\<close> (which is truthy and has none of the configuration's
  members), or \<^verbatim>\<open>undefined\<close>.
\<close>

datatype provider_lookup = Configured provider_config | Inherited | Missing

definition object_prototype_names :: "string list" where
  "object_prototype_names =
     [''constructor'', ''__proto__'', ''hasOwnProperty'', ''isPrototypeOf'',
      ''propertyIsEnumerable'', ''toLocaleString'', ''toString'', ''valueOf'',
      ''__defineGetter__'', ''__defineSetter__'', ''__lookupGetter__'', ''__lookupSetter__'']"

definition PROVIDERS :: "string \<Rightarrow> provider_lookup" where
  "PROVIDERS providerName =
     (if providerName = ''openai'' then Configured openai
      else if providerName = ''anthropic'' then Configured anthropic
      else if providerName \<in> set object_prototype_names then Inherited
      else Missing)"

subsection \<open>Response generation\<close>

record generate_options =
  provider :: "string option"
  model :: "string option"
  temperature :: "json option"
  maxTokens :: "json option"

text \<open>\<^verbatim>\<open>a ?? b\<close>: the default replaces \<^verbatim>\<open>undefined\<close> and \<^verbatim>\<open>null\<close> only.\<close>

definition nullish_or :: "json option \<Rightarrow> json \<Rightarrow> json" where
  "nullish_or v d = (case v of None \<Rightarrow> d | Some JNull \<Rightarrow> d | Some x \<Rightarrow> x)"

text \<open>
  \<^verbatim>\<open>generateResponse(userMessage, ragContext, apiKey, options)\<close>. The result is the text,
  or the exception thrown, together with the calls made to \<^verbatim>\<open>fetch\<close>. The message of
  the error for a reply that is not \<^verbatim>\<open>ok\<close> is kept as its parts: provider name,
  status and the parsed error body (\<^verbatim>\<open>{}\<close> when the body is not JSON).
\<close>

definition generateResponse ::
  "string \<Rightarrow> string \<Rightarrow> string option \<Rightarrow> generate_options \<Rightarrow> remote_reply
     \<Rightarrow> (js_error + string) \<times> fetch_call list" where
  \<open>generateResponse userMessage ragContext apiKey options reply =
     (let providerName = or_empty (or_else (provider options) (Some ''openai''))
      in case PROVIDERS providerName of
           Missing \<Rightarrow>
             (Inl (Error (''Unknown AI provider: "'' @ providerName
                            @ ''". Supported: openai, anthropic'')), [])
         | Inherited \<Rightarrow> (Inl TypeError, [])
         | Configured config \<Rightarrow>
             (let model = or_empty (or_else (model options) (Some (defaultModel config)));
                  temperature = nullish_or (temperature options) (JDecimal ''0.7'');
                  maxTokens = nullish_or (maxTokens options) (JNumber 500);
                  messages =
                    [\<lparr>role = ''system'', message_content = SYSTEM_PROMPT\<rparr>,
                     \<lparr>role = ''system'',
                      message_content =
                        ''Here is the relevant information from the knowledge base:\<newline>\<newline>''
                        @ ragContext
                        @ ''\<newline>\<newline>Use ONLY this information to answer the user's question. If the answer isn't in these entries, say so honestly.''\<rparr>,
                     \<lparr>role = ''user'', message_content = userMessage\<rparr>];
                  payload = buildPayload config messages model temperature maxTokens;
                  headers = [(''Content-Type'', ''application/json'')];
                  headers =
                    (if providerName = ''anthropic''
                     then headers @ [(''x-api-key'', authHeader config apiKey),
                                     (''anthropic-version'', ''2023-06-01'')]
                     else headers @ [(''Authorization'', authHeader config apiKey)]);
                  init = \<lparr>init_method = ''POST'', init_headers = headers, init_body = payload,
                          signal = None\<rparr>;
                  call = \<lparr>call_url = apiUrl config, call_init = init\<rparr>
              in (case fetch init reply of
                    Inl err \<Rightarrow> Inl err
                  | Inr response \<Rightarrow>
                      if \<not> ok response
                      then Inl (ApiError providerName (http_status response)
                                  (case http_json response of None \<Rightarrow> JObject [] | Some e \<Rightarrow> e))
                      else (case http_json response of
                              None \<Rightarrow> Inl SyntaxError
                            | Some data \<Rightarrow> extractResponse config data),
                  [call])))\<close>

definition getFallbackResponse :: string where
  "getFallbackResponse =
     ''I'm having trouble connecting right now. Please try again in a moment, or reach out directly through the contact page.''"

section \<open>Session and client identification (rate-limiter.js)\<close>

text \<open>
  \<^verbatim>\<open>hashString\<close>: the running hash is a 32-bit integer
  (\<^verbatim>\<open>hash & hash\<close> wraps the sum), \<^verbatim>\<open>Math.abs\<close> of it is written in base 36.
\<close>

definition base36_digit :: "nat \<Rightarrow> char" where
  "base36_digit d = ''0123456789abcdefghijklmnopqrstuvwxyz'' ! d"

fun show_base36 :: "nat \<Rightarrow> string" where
  "show_base36 n =
     (if n < 36 then [base36_digit n] else show_base36 (n div 36) @ [base36_digit (n mod 36)])"

declare show_base36.simps [simp del]

definition hashString :: "string \<Rightarrow> string" where
  "hashString str =
     (let hash = foldl (\<lambda>hash c. (push_bit 5 hash - hash) + of_nat (of_char c)) (0 :: 32 word) str
      in show_base36 (nat \<bar>sint hash\<bar>))"

text \<open>An incoming request: what the worker reads of it. Header names are case-insensitive.\<close>

record request =
  request_method :: string
  request_pathname :: string
  request_headers :: "string \<rightharpoonup> string"
  request_json :: "json option"

definition headers_get :: "request \<Rightarrow> string \<Rightarrow> string option" where
  "headers_get req name = request_headers req (toLowerCase name)"

definition getSessionId :: "request \<Rightarrow> string" where
  "getSessionId req =
     (let sessionHeader = headers_get req ''X-Session-ID''
      in if truthy sessionHeader then or_empty sessionHeader
         else (let ip = or_empty (or_else (headers_get req ''CF-Connecting-IP'') (Some ''unknown''));
                   ua = or_empty (or_else (headers_get req ''User-Agent'') (Some ''unknown''))
               in ip @ ''-'' @ hashString ua))"

definition getClientIP :: "request \<Rightarrow> string" where
  "getClientIP req =
     or_empty
       (or_else (headers_get req ''CF-Connecting-IP'')
          (or_else (map_option (takeWhile (\<lambda>c. c \<noteq> CHR '','')) (headers_get req ''X-Forwarded-For''))
             (Some ''unknown'')))"

section \<open>Worker (index.js)\<close>

definition ALLOWED_ORIGINS :: "string list" where
  "ALLOWED_ORIGINS =
     [''https://yoursite.com'', ''https://www.yoursite.com'',
      ''http://localhost:3000'', ''http://localhost:8000'']"

definition NO_MATCH_RESPONSE :: string where
  "NO_MATCH_RESPONSE =
     ''I don't have information about that in my knowledge base. Is there something else I can help you with?''"

definition DEFAULT_SUGGESTIONS :: "string list" where
  "DEFAULT_SUGGESTIONS =
     [''What can you tell me about [YOUR NAME]?'', ''What services are available?'',
      ''How can I get in touch?'']"

subsection \<open>CORS\<close>

definition getCorsHeaders :: "string option \<Rightarrow> (string \<times> string) list" where
  "getCorsHeaders origin =
     (let isAllowed =
            list_ex (\<lambda>allowed. case origin of None \<Rightarrow> False | Some orig \<Rightarrow> startsWith orig allowed)
              ALLOWED_ORIGINS
      in [(''Access-Control-Allow-Origin'',
             if isAllowed then (case origin of Some orig \<Rightarrow> orig | None \<Rightarrow> ''null'')
             else ALLOWED_ORIGINS ! 0),
          (''Access-Control-Allow-Methods'', ''POST, GET, OPTIONS''),
          (''Access-Control-Allow-Headers'', ''Content-Type, X-Session-ID''),
          (''Access-Control-Max-Age'', ''86400'')])"

subsection \<open>Responses\<close>

datatype response_body = NullBody | TextBody string | JsonBody json

record response =
  status :: nat
  headers :: "(string \<times> string) list"
  body :: response_body

definition header :: "response \<Rightarrow> string \<Rightarrow> string option" where
  "header r name = map_of (headers r) name"

text \<open>The environment bindings other than the key-value namespace.\<close>

record env =
  AI_PROVIDER :: "string option"
  AI_MODEL :: "string option"
  OPENAI_API_KEY :: "string option"
  ANTHROPIC_API_KEY :: "string option"

text \<open>The readings of \<^verbatim>\<open>Date.now()\<close> during one request, in the order they are taken.\<close>

record clock =
  rateLimitNow :: int
  ragStart :: int
  ragEnd :: int
  aiStart :: int
  aiEnd :: int

text \<open>\<^verbatim>\<open>[...new Set(xs)]\<close>: the distinct elements in order of first occurrence.\<close>

definition distinct_in_order :: "'a list \<Rightarrow> 'a list" where
  "distinct_in_order xs = rev (remdups (rev xs))"

definition json_of_field :: "string option \<Rightarrow> json" where
  "json_of_field v = (case v of None \<Rightarrow> JNull | Some s \<Rightarrow> JString s)"

subsection \<open>Chat handler\<close>

text \<open>
  The body of the outer \<^verbatim>\<open>try\<close> of \<^verbatim>\<open>handleChat\<close>: the response it returns or the
  exception that reaches the outer \<^verbatim>\<open>catch\<close>, the key-value namespace as the rate
  limiter left it, and the calls made to the provider. The inner \<^verbatim>\<open>try\<close> around
  \<^verbatim>\<open>generateResponse\<close> is the case on its result.
\<close>

definition handleChat_try ::
  "request \<Rightarrow> env \<Rightarrow> kv_namespace \<Rightarrow> clock \<Rightarrow> entry list \<Rightarrow> remote_reply
     \<Rightarrow> (js_error + response) \<times> kv_namespace \<times> fetch_call list" where
  "handleChat_try req env kv clock knowledgeBase reply =
     (let origin = headers_get req ''Origin''
      in case request_json req of
           None \<Rightarrow> (Inl SyntaxError, kv, [])
         | Some requestBody \<Rightarrow>
        (case js_get (Some requestBody) ''message'' of
           Inl err \<Rightarrow> (Inl err, kv, [])
         | Inr message \<Rightarrow>
        (case (case message of
                 Some (JString text) \<Rightarrow> if text \<noteq> [] \<and> length (trim text) \<noteq> 0 then Some text else None
               | _ \<Rightarrow> None) of
           None \<Rightarrow>
             (Inr \<lparr>status = 400,
                   headers = (''Content-Type'', ''application/json'') # getCorsHeaders origin,
                   body = JsonBody (JObject [(''error'', JString ''Please provide a message.'')])\<rparr>,
              kv, [])
         | Some message \<Rightarrow>
        (let sessionId = getSessionId req;
             ipAddress = getClientIP req;
             (rateLimitResult, kv) = checkRateLimit sessionId ipAddress kv (rateLimitNow clock)
         in if \<not> allowed rateLimitResult
            then (case retryAfter rateLimitResult of
                    None \<Rightarrow> (Inl TypeError, kv, [])
                  | Some secs \<Rightarrow>
                      (Inr \<lparr>status = 429,
                            headers = [(''Content-Type'', ''application/json''),
                                       (''Retry-After'', show_int secs)] @ getCorsHeaders origin,
                            body = JsonBody (JObject
                                     ((case reason rateLimitResult of
                                         None \<Rightarrow> [] | Some why \<Rightarrow> [(''error'', JString why)])
                                      @ [(''retryAfter'', JNumber secs)]))\<rparr>,
                       kv, []))
            else
        (let retrievedEntries = retrieveEntries message knowledgeBase 5;
             ragTimeMs = ragEnd clock - ragStart clock
         in if length retrievedEntries = 0
            then (Inr \<lparr>status = 200,
                       headers = (''Content-Type'', ''application/json'') # getCorsHeaders origin,
                       body = JsonBody (JObject
                                [(''message'', JString NO_MATCH_RESPONSE),
                                 (''suggestions'', JArray (map JString DEFAULT_SUGGESTIONS)),
                                 (''metadata'', JObject [(''retrievalTime'', JNumber ragTimeMs),
                                                         (''entriesFound'', JNumber 0)])])\<rparr>,
                  kv, [])
            else
        (case formatEntriesForContext retrievedEntries of
           Inl err \<Rightarrow> (Inl err, kv, [])
         | Inr ragContext \<Rightarrow>
        (let provider = toLowerCase (or_empty (or_else (AI_PROVIDER env) (Some ''openai'')));
             apiKey = (if provider = ''anthropic'' then ANTHROPIC_API_KEY env else OPENAI_API_KEY env);
             (generated, calls) =
                generateResponse message ragContext apiKey
                  \<lparr>provider = Some provider,
                   model = (if truthy (AI_MODEL env) then AI_MODEL env else None),
                   temperature = None, maxTokens = None\<rparr> reply;
             aiResponse = (case generated of Inl error \<Rightarrow> getFallbackResponse | Inr text \<Rightarrow> text);
             aiTimeMs = aiEnd clock - aiStart clock
         in (Inr \<lparr>status = 200,
                  headers = (''Content-Type'', ''application/json'') # getCorsHeaders origin,
                  body = JsonBody (JObject
                           [(''message'', JString aiResponse),
                            (''suggestions'', JArray (map JString DEFAULT_SUGGESTIONS)),
                            (''metadata'', JObject
                               [(''retrievalTime'', JNumber ragTimeMs),
                                (''aiGenerationTime'', JNumber aiTimeMs),
                                (''totalTime'', JNumber (ragTimeMs + aiTimeMs)),
                                (''entriesFound'', JNumber (int (length retrievedEntries))),
                                (''topics'', JArray (map json_of_field
                                    (distinct_in_order (map topic retrievedEntries))))])])\<rparr>,
             kv, calls))))))))"

definition handleChat ::
  "request \<Rightarrow> env \<Rightarrow> kv_namespace \<Rightarrow> clock \<Rightarrow> entry list \<Rightarrow> remote_reply
     \<Rightarrow> response \<times> kv_namespace \<times> fetch_call list" where
  "handleChat req env kv clock knowledgeBase reply =
     (case handleChat_try req env kv clock knowledgeBase reply of
        (Inr resp, kv, calls) \<Rightarrow> (resp, kv, calls)
      | (Inl error, kv, calls) \<Rightarrow>
          (\<lparr>status = 500,
            headers = (''Content-Type'', ''application/json'')
                        # getCorsHeaders (headers_get req ''Origin''),
            body = JsonBody (JObject
                     [(''error'', JString ''Internal server error. Please try again.''),
                      (''message'', JString getFallbackResponse)])\<rparr>,
           kv, calls))"

subsection \<open>Router\<close>

text \<open>The \<^verbatim>\<open>stats\<close> object of the generated knowledge module.\<close>

record stats =
  totalEntries :: nat
  types :: json

definition handleRequest ::
  "request \<Rightarrow> env \<Rightarrow> kv_namespace \<Rightarrow> clock \<Rightarrow> entry list \<Rightarrow> stats \<Rightarrow> remote_reply
     \<Rightarrow> response \<times> kv_namespace \<times> fetch_call list" where
  "handleRequest req env kv clock knowledgeBase stats reply =
     (let origin = headers_get req ''Origin''
      in if request_method req = ''OPTIONS''
         then (\<lparr>status = 204, headers = getCorsHeaders origin, body = NullBody\<rparr>, kv, [])
         else if request_method req = ''GET'' \<and> request_pathname req = ''/health''
         then (\<lparr>status = 200,
                 headers = (''Content-Type'', ''application/json'') # getCorsHeaders origin,
                 body = JsonBody (JObject
                          [(''status'', JString ''ok''),
                           (''entries'', JNumber (int (totalEntries stats))),
                           (''types'', types stats),
                           (''provider'', JString (or_empty (or_else (AI_PROVIDER env) (Some ''openai'')))),
                           (''model'', JString (or_empty (or_else (AI_MODEL env) (Some ''default''))))])\<rparr>,
               kv, [])
         else if request_method req = ''POST'' \<and> request_pathname req = ''/chat''
         then handleChat req env kv clock knowledgeBase reply
         else (\<lparr>status = 404, headers = getCorsHeaders origin, body = TextBody ''Not Found''\<rparr>, kv, []))"

subsection \<open>The widget's request (chatbot-widget.js)\<close>

text \<open>
  The init object of the widget's call to the worker, in \<^verbatim>\<open>sendMessageToAPI\<close>. This
  is the call that carries \<^verbatim>\<open>AbortSignal.timeout(15000)\<close>.
\<close>

definition sendMessageToAPI_init :: "string \<Rightarrow> string \<Rightarrow> nat \<Rightarrow> request_init" where
  "sendMessageToAPI_init message sessionId messageCount =
     \<lparr>init_method = ''POST'',
      init_headers = [(''Content-Type'', ''application/json''), (''X-Session-ID'', sessionId)],
      init_body = JObject [(''message'', JString message),
                           (''messageNumber'', JNumber (int messageCount))],
      signal = Some 15000\<rparr>"

subsection \<open>Names used to state the properties of the worker\<close>

text \<open>
  The message of a request that passes the validation of \<open>handleChat\<close>; the key and the
  options \<open>handleChat\<close> passes to \<open>generateResponse\<close>; the \<^verbatim>\<open>message\<close> member of a
  JSON response body; and a response whose headers end with the CORS headers for the
  request's origin, no earlier header being the allow-origin header.
\<close>

definition chat_message_text :: "request \<Rightarrow> string option" where
  "chat_message_text req =
     (case request_json req of
        None \<Rightarrow> None
      | Some requestBody \<Rightarrow>
          (case js_get (Some requestBody) ''message'' of
             Inl err \<Rightarrow> None
           | Inr (Some (JString text)) \<Rightarrow>
               if text \<noteq> [] \<and> length (trim text) \<noteq> 0 then Some text else None
           | Inr _ \<Rightarrow> None))"

definition chat_api_key :: "env \<Rightarrow> string option" where
  "chat_api_key env =
     (if toLowerCase (or_empty (or_else (AI_PROVIDER env) (Some ''openai''))) = ''anthropic''
      then ANTHROPIC_API_KEY env else OPENAI_API_KEY env)"

definition chat_options :: "env \<Rightarrow> generate_options" where
  "chat_options env =
     \<lparr>provider = Some (toLowerCase (or_empty (or_else (AI_PROVIDER env) (Some ''openai'')))),
      model = (if truthy (AI_MODEL env) then AI_MODEL env else None),
      temperature = None, maxTokens = None\<rparr>"

definition response_message :: "response \<Rightarrow> string option" where
  "response_message r =
     (case body r of
        JsonBody (JObject members) \<Rightarrow>
          (case map_of members ''message'' of Some (JString text) \<Rightarrow> Some text | _ \<Rightarrow> None)
      | _ \<Rightarrow> None)"

definition cors_tail :: "request \<Rightarrow> response \<Rightarrow> bool" where
  "cors_tail req resp =
     (\<exists>pre. headers resp = pre @ getCorsHeaders (headers_get req ''Origin'')
          \<and> ''Access-Control-Allow-Origin'' \<notin> fst ` set pre)"

text \<open>A chat request, an environment and two replies of the provider, used as concrete inputs.\<close>

definition example_request :: request where
  "example_request =
     \<lparr>request_method = ''POST'', request_pathname = ''/chat'',
      request_headers = [''origin'' \<mapsto> ''http://localhost:3000'', ''x-session-id'' \<mapsto> ''s1'',
                         ''cf-connecting-ip'' \<mapsto> ''10.0.0.1''],
      request_json = Some (JObject [(''message'', JString ''python'')])\<rparr>"

definition example_env :: env where
  "example_env =
     \<lparr>AI_PROVIDER = None, AI_MODEL = None, OPENAI_API_KEY = Some ''sk-test'',
      ANTHROPIC_API_KEY = None\<rparr>"

definition example_clock :: clock where
  "example_clock =
     \<lparr>rateLimitNow = 1000000, ragStart = 1000001, ragEnd = 1000003, aiStart = 1000003,
      aiEnd = 1020003\<rparr>"

definition slow_reply :: remote_reply where
  "slow_reply =
     \<lparr>latency_ms = 20000,
      outcome = HttpReply
        \<lparr>http_status = 200,
         http_json = Some (JObject [(''choices'',
           JArray [JObject [(''message'', JObject [(''role'', JString ''assistant''),
                                                  (''content'', JString '' Hello '')])]])])\<rparr>\<rparr>"

definition failing_reply :: remote_reply where
  "failing_reply =
     \<lparr>latency_ms = 100, outcome = HttpReply \<lparr>http_status = 503, http_json = None\<rparr>\<rparr>"

section \<open>Properties of the rate limiter\<close>

lemma show_int_10: "show_int 10 = ''10''" "show_int 100 = ''100''"
  by (simp_all add: show_int_def show_nat.simps digit_char_def)

lemma session_limit_reason_text:
  "session_limit_reason = ''Rate limit exceeded. You can send 10 messages per hour.''"
  by (simp add: session_limit_reason_def VISITOR_LIMIT_def show_int_10)

lemma ip_limit_reason_text:
  "ip_limit_reason = ''IP rate limit exceeded. Maximum 100 messages per day.''"
  by (simp add: ip_limit_reason_def IP_LIMIT_def show_int_10)

lemma ipKey_neq_sessionKey: "ipKey a \<noteq> sessionKey s"
  by (simp add: ipKey_def sessionKey_def)

lemma kv_get_put_other:
  "k' \<noteq> k \<Longrightarrow> kv_get (kv_put kv now k v ttl) now' k' = kv_get kv now' k'"
  by (simp add: kv_get_def kv_put_def)

lemma kv_get_put_same:
  "0 < ttl \<Longrightarrow> kv_get (kv_put kv now k v ttl) now k = Some v"
  by (simp add: kv_get_def kv_put_def)

lemma checkRateLimit_session_denied:
  assumes "kv_get kv (dateNow div 1000) (sessionKey sessionId) = Some d"
    and "dateNow div 1000 < resetAt d" and "10 \<le> count d"
  shows "checkRateLimit sessionId ipAddress kv dateNow =
           (rate_denied session_limit_reason (resetAt d - dateNow div 1000), kv)"
  using assms by (simp add: checkRateLimit_def Let_def VISITOR_LIMIT_def)

lemma ip_get_session_written:
  "kv_get (session_written kv now sessionId) now' (ipKey ipAddress) = kv_get kv now' (ipKey ipAddress)"
  unfolding session_written_def by (rule kv_get_put_other) (rule ipKey_neq_sessionKey)

lemma checkRateLimit_session_admitted:
  assumes "\<not> session_denies kv (dateNow div 1000) sessionId"
  shows "checkRateLimit sessionId ipAddress kv dateNow =
     (let now = dateNow div 1000; kv1 = session_written kv now sessionId in
      case kv_get kv now (ipKey ipAddress) of
        Some d \<Rightarrow>
          if now < resetAt d \<and> 100 \<le> count d
          then (rate_denied ip_limit_reason (resetAt d - now), kv1)
          else (rate_allowed, ip_written kv1 now ipAddress)
      | None \<Rightarrow> (rate_allowed, ip_written kv1 now ipAddress))"
proof -
  define now where "now = dateNow div 1000"
  have stage1:
    "(case kv_get kv now (sessionKey sessionId) of
        Some d \<Rightarrow>
          if now < resetAt d \<and> VISITOR_LIMIT \<le> count d
          then Inl (rate_denied session_limit_reason (resetAt d - now))
          else if now < resetAt d
          then Inr (kv_put kv now (sessionKey sessionId) \<lparr>count = count d + 1, resetAt = resetAt d\<rparr> HOUR_IN_SECONDS)
          else Inr (kv_put kv now (sessionKey sessionId) \<lparr>count = 1, resetAt = now + HOUR_IN_SECONDS\<rparr> HOUR_IN_SECONDS)
      | None \<Rightarrow> Inr (kv_put kv now (sessionKey sessionId) \<lparr>count = 1, resetAt = now + HOUR_IN_SECONDS\<rparr> HOUR_IN_SECONDS))
     = Inr (session_written kv now sessionId)"
    using assms
    by (cases "kv_get kv now (sessionKey sessionId)")
       (simp_all add: session_denies_def session_written_def next_window_def VISITOR_LIMIT_def
          HOUR_IN_SECONDS_def now_def [symmetric])
  show ?thesis
    unfolding checkRateLimit_def Let_def now_def [symmetric] stage1 sum.case ip_get_session_written
    by (cases "kv_get kv now (ipKey ipAddress)")
       (simp_all add: ip_written_def next_window_def IP_LIMIT_def DAY_IN_SECONDS_def
          ip_get_session_written)
qed


lemma allowed_simps [simp]:
  "allowed rate_allowed" "\<not> allowed (rate_denied why secs)"
  by (simp_all add: rate_allowed_def rate_denied_def)

lemma session_get_ip_written:
  "kv_get (ip_written kv now ipAddress) now' (sessionKey sessionId) = kv_get kv now' (sessionKey sessionId)"
  unfolding ip_written_def by (rule kv_get_put_other) (rule ipKey_neq_sessionKey [symmetric])

lemma session_get_session_written:
  "kv_get (session_written kv now sessionId) now (sessionKey sessionId) =
     Some (next_window (kv_get kv now (sessionKey sessionId)) now 3600)"
  unfolding session_written_def by (rule kv_get_put_same) simp

lemma ip_get_ip_written:
  "kv_get (ip_written kv now ipAddress) now (ipKey ipAddress) =
     Some (next_window (kv_get kv now (ipKey ipAddress)) now 86400)"
  unfolding ip_written_def by (rule kv_get_put_same) simp

lemma checkRateLimit_both_admit:
  assumes "\<not> session_denies kv (dateNow div 1000) sessionId"
    and "\<not> ip_denies kv (dateNow div 1000) ipAddress"
  shows "checkRateLimit sessionId ipAddress kv dateNow =
           (rate_allowed,
            ip_written (session_written kv (dateNow div 1000) sessionId) (dateNow div 1000) ipAddress)"
  using assms(2) unfolding checkRateLimit_session_admitted [OF assms(1)] Let_def ip_denies_def
  by (cases "kv_get kv (dateNow div 1000) (ipKey ipAddress)") auto

lemma checkRateLimit_ip_denied:
  assumes "\<not> session_denies kv (dateNow div 1000) sessionId"
    and "kv_get kv (dateNow div 1000) (ipKey ipAddress) = Some w"
    and "dateNow div 1000 < resetAt w" and "100 \<le> count w"
  shows "checkRateLimit sessionId ipAddress kv dateNow =
           (rate_denied ip_limit_reason (resetAt w - dateNow div 1000),
            session_written kv (dateNow div 1000) sessionId)"
  using assms(2-) unfolding checkRateLimit_session_admitted [OF assms(1)] Let_def
  by simp

text \<open>
  Claim C7. When the session window denies a request (a stored, unexpired session record
  with count at least 10 and \<open>resetAt\<close> in the future), \<open>checkRateLimit\<close> returns the
  session denial and the store it returns is the store it was given: no record, neither
  the session's nor the IP's, has been written, so the IP counter is not incremented.
\<close>

theorem checkRateLimit_session_denial_writes_nothing:
  assumes "kv_get kv (dateNow div 1000) (sessionKey sessionId) = Some d"
    and "dateNow div 1000 < resetAt d" and "10 \<le> count d"
  shows "checkRateLimit sessionId ipAddress kv dateNow =
           (\<lparr>allowed = False,
             reason = Some ''Rate limit exceeded. You can send 10 messages per hour.'',
             retryAfter = Some (resetAt d - dateNow div 1000)\<rparr>, kv)"
  unfolding checkRateLimit_session_denied [OF assms] rate_denied_def session_limit_reason_text ..

theorem checkRateLimit_session_denial_writes_nothing_witness:
  "(let kv = [sessionKey ''s1'' \<mapsto> \<lparr>kv_value = \<lparr>count = 10, resetAt = 102600\<rparr>, kv_expiration = 103500\<rparr>,
              ipKey ''10.0.0.1'' \<mapsto> \<lparr>kv_value = \<lparr>count = 3, resetAt = 136400\<rparr>, kv_expiration = 186000\<rparr>]
    in kv_get kv (100000000 div 1000) (sessionKey ''s1'') = Some \<lparr>count = 10, resetAt = 102600\<rparr>
     \<and> checkRateLimit ''s1'' ''10.0.0.1'' kv 100000000 =
           (\<lparr>allowed = False,
             reason = Some ''Rate limit exceeded. You can send 10 messages per hour.'',
             retryAfter = Some 2600\<rparr>, kv))"
proof -
  define kv :: kv_namespace where
    "kv = [sessionKey ''s1'' \<mapsto> \<lparr>kv_value = \<lparr>count = 10, resetAt = 102600\<rparr>, kv_expiration = 103500\<rparr>,
           ipKey ''10.0.0.1'' \<mapsto> \<lparr>kv_value = \<lparr>count = 3, resetAt = 136400\<rparr>, kv_expiration = 186000\<rparr>]"
  have g: "kv_get kv (100000000 div 1000) (sessionKey ''s1'') = Some \<lparr>count = 10, resetAt = 102600\<rparr>"
    by (simp add: kv_def kv_get_def ipKey_def sessionKey_def)
  from checkRateLimit_session_denial_writes_nothing [OF g, of "''10.0.0.1''"] g show ?thesis
    by (simp add: kv_def [symmetric] Let_def)
qed

text \<open>
  Claim C10. When the session window admits a request and the IP window then denies it
  (stored IP count at least 100 with \<open>resetAt\<close> in the future), the result is the IP
  denial and the store returned differs from the one given exactly by the session record,
  which has been written back: count incremented inside a live window, or restarted at
  count 1 with a new \<open>resetAt\<close>. The denied request has used one unit of session quota.
\<close>

theorem checkRateLimit_ip_denial_consumes_session_quota:
  assumes "\<not> session_denies kv (dateNow div 1000) sessionId"
    and "kv_get kv (dateNow div 1000) (ipKey ipAddress) = Some w"
    and "dateNow div 1000 < resetAt w" and "100 \<le> count w"
  shows "(let now = dateNow div 1000;
              stored = kv_get kv now (sessionKey sessionId);
              r = checkRateLimit sessionId ipAddress kv dateNow
          in fst r = \<lparr>allowed = False,
                      reason = Some ''IP rate limit exceeded. Maximum 100 messages per day.'',
                      retryAfter = Some (resetAt w - now)\<rparr>
           \<and> snd r = kv(sessionKey sessionId \<mapsto>
                         \<lparr>kv_value = next_window stored now 3600, kv_expiration = now + 3600\<rparr>)
           \<and> (\<forall>d. stored = Some d \<and> now < resetAt d \<longrightarrow>
                  kv_get (snd r) now (sessionKey sessionId) = Some \<lparr>count = count d + 1, resetAt = resetAt d\<rparr>)
           \<and> ((stored = None \<or> (\<exists>d. stored = Some d \<and> resetAt d \<le> now)) \<longrightarrow>
                  kv_get (snd r) now (sessionKey sessionId) = Some \<lparr>count = 1, resetAt = now + 3600\<rparr>))"
  unfolding checkRateLimit_ip_denied [OF assms] Let_def fst_conv snd_conv session_get_session_written
  by (auto simp add: rate_denied_def ip_limit_reason_text session_written_def kv_put_def next_window_def)


theorem checkRateLimit_ip_denial_consumes_session_quota_witness:
  "(let kv = [sessionKey ''s1'' \<mapsto> \<lparr>kv_value = \<lparr>count = 3, resetAt = 102600\<rparr>, kv_expiration = 103000\<rparr>,
              ipKey ''10.0.0.1'' \<mapsto> \<lparr>kv_value = \<lparr>count = 100, resetAt = 136400\<rparr>, kv_expiration = 186000\<rparr>];
        r = checkRateLimit ''s1'' ''10.0.0.1'' kv 100000000
    in \<not> session_denies kv 100000 ''s1''
     \<and> kv_get kv 100000 (ipKey ''10.0.0.1'') = Some \<lparr>count = 100, resetAt = 136400\<rparr>
     \<and> allowed (fst r) = False
     \<and> retryAfter (fst r) = Some 36400
     \<and> kv_get (snd r) 100000 (sessionKey ''s1'') = Some \<lparr>count = 4, resetAt = 102600\<rparr>
     \<and> kv_get (snd r) 100000 (ipKey ''10.0.0.1'') = Some \<lparr>count = 100, resetAt = 136400\<rparr>)"
proof -
  define kv :: kv_namespace where
    "kv = [sessionKey ''s1'' \<mapsto> \<lparr>kv_value = \<lparr>count = 3, resetAt = 102600\<rparr>, kv_expiration = 103000\<rparr>,
           ipKey ''10.0.0.1'' \<mapsto> \<lparr>kv_value = \<lparr>count = 100, resetAt = 136400\<rparr>, kv_expiration = 186000\<rparr>]"
  have s: "kv_get kv 100000 (sessionKey ''s1'') = Some \<lparr>count = 3, resetAt = 102600\<rparr>"
    by (simp add: kv_def kv_get_def ipKey_def sessionKey_def)
  have a: "\<not> session_denies kv (100000000 div 1000) ''s1''"
    by (simp add: session_denies_def s)
  have g: "kv_get kv (100000000 div 1000) (ipKey ''10.0.0.1'') = Some \<lparr>count = 100, resetAt = 136400\<rparr>"
    by (simp add: kv_def kv_get_def ipKey_def sessionKey_def)
  note T = checkRateLimit_ip_denial_consumes_session_quota [OF a g, unfolded Let_def]
  from T have f: "fst (checkRateLimit ''s1'' ''10.0.0.1'' kv 100000000) =
      \<lparr>allowed = False, reason = Some ''IP rate limit exceeded. Maximum 100 messages per day.'',
       retryAfter = Some 36400\<rparr>"
    by simp
  from T have sn: "snd (checkRateLimit ''s1'' ''10.0.0.1'' kv 100000000) =
      kv(sessionKey ''s1'' \<mapsto>
          \<lparr>kv_value = next_window (Some \<lparr>count = 3, resetAt = 102600\<rparr>) 100000 3600,
           kv_expiration = 103600\<rparr>)"
    by (simp add: s)
  have c: "kv_get (snd (checkRateLimit ''s1'' ''10.0.0.1'' kv 100000000)) 100000 (sessionKey ''s1'')
             = Some \<lparr>count = 4, resetAt = 102600\<rparr>"
    unfolding sn by (simp add: kv_get_def next_window_def)
  have i: "kv_get (snd (checkRateLimit ''s1'' ''10.0.0.1'' kv 100000000)) 100000 (ipKey ''10.0.0.1'')
             = Some \<lparr>count = 100, resetAt = 136400\<rparr>"
    unfolding sn using g by (simp add: kv_get_def ipKey_neq_sessionKey)
  from a g have a': "\<not> session_denies kv 100000 ''s1''"
    and g': "kv_get kv 100000 (ipKey ''10.0.0.1'') = Some \<lparr>count = 100, resetAt = 136400\<rparr>"
    by simp_all
  show ?thesis
    unfolding Let_def kv_def [symmetric] f c i using a' g' by simp
qed

lemma next_window_fresh:
  "stored = None \<or> (\<exists>d. stored = Some d \<and> resetAt d \<le> now) \<Longrightarrow>
   next_window stored now len = \<lparr>count = 1, resetAt = now + len\<rparr>"
  by (auto simp add: next_window_def)

lemma session_denies_iff:
  "session_denies kv now sessionId \<longleftrightarrow>
     (\<exists>d. kv_get kv now (sessionKey sessionId) = Some d \<and> now < resetAt d \<and> 10 \<le> count d)"
  by (auto simp add: session_denies_def split: option.splits)

lemma ip_denies_iff:
  "ip_denies kv now ipAddress \<longleftrightarrow>
     (\<exists>d. kv_get kv now (ipKey ipAddress) = Some d \<and> now < resetAt d \<and> 100 \<le> count d)"
  by (auto simp add: ip_denies_def split: option.splits)

subsection \<open>Sequences of requests\<close>

text \<open>
  What one request does to the record of a session and of an IP address, and the records
  that a sequence of requests within one window leaves behind.
\<close>

lemma session_entry_after:
  "snd (checkRateLimit s a kv t) (sessionKey s) =
     (if session_denies kv (t div 1000) s then kv (sessionKey s)
      else Some \<lparr>kv_value = next_window (kv_get kv (t div 1000) (sessionKey s)) (t div 1000) 3600,
                 kv_expiration = t div 1000 + 3600\<rparr>)"
proof (cases "session_denies kv (t div 1000) s")
  case True
  then obtain d where "kv_get kv (t div 1000) (sessionKey s) = Some d" "t div 1000 < resetAt d"
      "10 \<le> count d"
    by (auto simp add: session_denies_iff)
  from checkRateLimit_session_denied [OF this] True show ?thesis by simp
next
  case False
  have w: "session_written kv (t div 1000) s (sessionKey s) =
      Some \<lparr>kv_value = next_window (kv_get kv (t div 1000) (sessionKey s)) (t div 1000) 3600,
            kv_expiration = t div 1000 + 3600\<rparr>"
    by (simp add: session_written_def kv_put_def)
  have i: "ip_written kv' now a (sessionKey s) = kv' (sessionKey s)" for kv' now
    using ipKey_neq_sessionKey [of a s] by (simp add: ip_written_def kv_put_def)
  from False show ?thesis
    unfolding checkRateLimit_session_admitted [OF False] Let_def
    by (simp add: w i split: option.split)
qed

lemma sessionKey_inj [simp]: "sessionKey s' = sessionKey s \<longleftrightarrow> s' = s"
  by (simp add: sessionKey_def)

lemma ipKey_inj [simp]: "ipKey a' = ipKey a \<longleftrightarrow> a' = a"
  by (simp add: ipKey_def)

lemma reason_texts_differ: "ip_limit_reason \<noteq> session_limit_reason"
  by (simp add: ip_limit_reason_text session_limit_reason_text)

lemma reason_session_iff:
  "reason (fst (checkRateLimit s a kv t)) = Some session_limit_reason
     \<longleftrightarrow> session_denies kv (t div 1000) s"
proof (cases "session_denies kv (t div 1000) s")
  case True
  then obtain d where "kv_get kv (t div 1000) (sessionKey s) = Some d" "t div 1000 < resetAt d"
      "10 \<le> count d"
    by (auto simp add: session_denies_iff)
  from checkRateLimit_session_denied [OF this] True show ?thesis
    by (simp add: rate_denied_def)
next
  case False
  then show ?thesis
    unfolding checkRateLimit_session_admitted [OF False] Let_def
    by (simp add: rate_denied_def rate_allowed_def reason_texts_differ split: option.split)
qed

lemma session_entry_after_any:
  "snd (checkRateLimit s' a kv t) (sessionKey s) =
     (if s' = s \<and> \<not> session_denies kv (t div 1000) s
      then Some \<lparr>kv_value = next_window (kv_get kv (t div 1000) (sessionKey s)) (t div 1000) 3600,
                 kv_expiration = t div 1000 + 3600\<rparr>
      else kv (sessionKey s))"
proof (cases "s' = s")
  case True
  then show ?thesis using session_entry_after [of s a kv t] by simp
next
  case False
  show ?thesis
  proof (cases "session_denies kv (t div 1000) s'")
    case True
    then obtain d where "kv_get kv (t div 1000) (sessionKey s') = Some d" "t div 1000 < resetAt d"
        "10 \<le> count d"
      by (auto simp add: session_denies_iff)
    from checkRateLimit_session_denied [OF this] False show ?thesis by simp
  next
    case nd: False
    have w: "session_written kv (t div 1000) s' (sessionKey s) = kv (sessionKey s)"
      using False by (simp add: session_written_def kv_put_def)
    have i: "ip_written kv' now a (sessionKey s) = kv' (sessionKey s)" for kv' now
      using ipKey_neq_sessionKey [of a s] by (simp add: ip_written_def kv_put_def)
    from False show ?thesis
      unfolding checkRateLimit_session_admitted [OF nd] Let_def
      by (simp add: w i split: option.split)
  qed
qed

lemma ip_entry_after:
  "snd (checkRateLimit s a' kv t) (ipKey a) =
     (if a' = a \<and> \<not> session_denies kv (t div 1000) s \<and> \<not> ip_denies kv (t div 1000) a
      then Some \<lparr>kv_value = next_window (kv_get kv (t div 1000) (ipKey a)) (t div 1000) 86400,
                 kv_expiration = t div 1000 + 86400\<rparr>
      else kv (ipKey a))"
proof (cases "session_denies kv (t div 1000) s")
  case True
  then obtain d where "kv_get kv (t div 1000) (sessionKey s) = Some d" "t div 1000 < resetAt d"
      "10 \<le> count d"
    by (auto simp add: session_denies_iff)
  from checkRateLimit_session_denied [OF this] True show ?thesis by simp
next
  case nd: False
  have w: "session_written kv now s (ipKey a) = kv (ipKey a)" for now
    using ipKey_neq_sessionKey [of a s] by (simp add: session_written_def kv_put_def)
  show ?thesis
  proof (cases "ip_denies kv (t div 1000) a'")
    case True
    then obtain d where "kv_get kv (t div 1000) (ipKey a') = Some d" "t div 1000 < resetAt d"
        "100 \<le> count d"
      by (auto simp add: ip_denies_iff)
    from checkRateLimit_ip_denied [OF nd this] True show ?thesis
      by (auto simp add: w)
  next
    case False
    have "ip_written (session_written kv (t div 1000) s) (t div 1000) a' (ipKey a) =
        (if a' = a
         then Some \<lparr>kv_value = next_window (kv_get kv (t div 1000) (ipKey a)) (t div 1000) 86400,
                 kv_expiration = t div 1000 + 86400\<rparr>
         else kv (ipKey a))"
      by (simp add: ip_written_def kv_put_def w ip_get_session_written)
    with False nd show ?thesis
      unfolding checkRateLimit_both_admit [OF nd False] by auto
  qed
qed

lemma session_requests_Cons:
  "session_requests s ((s', a, t) # rs) = (if s' = s then 1 else 0) + session_requests s rs"
  by (simp add: session_requests_def)

lemma ip_requests_tested_Cons:
  "ip_requests_tested a kv ((s, a', t) # rs) =
     (if a' = a \<and> \<not> session_denies kv (t div 1000) s then 1 else 0)
     + ip_requests_tested a (snd (checkRateLimit s a' kv t)) rs"
proof -
  obtain r kv1 where r: "checkRateLimit s a' kv t = (r, kv1)" by (cases "checkRateLimit s a' kv t")
  obtain rs' kv2 where rs: "checkRateLimit_all kv1 rs = (rs', kv2)"
    by (cases "checkRateLimit_all kv1 rs")
  from reason_session_iff [of s a' kv t] r
  have "reason r = Some session_limit_reason \<longleftrightarrow> session_denies kv (t div 1000) s" by simp
  then show ?thesis
    by (simp add: ip_requests_tested_def r rs)
qed

lemma checkRateLimit_all_Cons_snd:
  "snd (checkRateLimit_all kv ((s, a, t) # rs)) = snd (checkRateLimit_all (snd (checkRateLimit s a kv t)) rs)"
  by (simp split: prod.split)

lemma session_run:
  assumes "kv (sessionKey s) = Some \<lparr>kv_value = \<lparr>count = c, resetAt = R\<rparr>, kv_expiration = e\<rparr>"
    and "R \<le> e" and "c \<le> 10"
    and "\<forall>(s', a, t) \<in> set reqs. s' = s \<longrightarrow> t div 1000 < R \<and> R \<le> t div 1000 + 3600"
  shows "\<exists>e'. snd (checkRateLimit_all kv reqs) (sessionKey s) =
            Some \<lparr>kv_value = \<lparr>count = min (c + int (session_requests s reqs)) 10, resetAt = R\<rparr>,
                  kv_expiration = e'\<rparr> \<and> R \<le> e'"
  using assms
proof (induction reqs arbitrary: kv c e)
  case Nil
  then show ?case by (simp add: session_requests_def)
next
  case (Cons x reqs)
  obtain s' a t where x: "x = (s', a, t)" by (cases x)
  define now where "now = t div 1000"
  define kv1 where "kv1 = snd (checkRateLimit s' a kv t)"
  from Cons.prems(4) have rest:
    "\<forall>(s', a, t) \<in> set reqs. s' = s \<longrightarrow> t div 1000 < R \<and> R \<le> t div 1000 + 3600"
    by simp
  have run: "snd (checkRateLimit_all kv (x # reqs)) = snd (checkRateLimit_all kv1 reqs)"
    unfolding x kv1_def by (rule checkRateLimit_all_Cons_snd)
  show ?case
  proof (cases "s' = s")
    case False
    then have "kv1 (sessionKey s) = kv (sessionKey s)"
      unfolding kv1_def by (simp add: session_entry_after_any)
    with Cons.prems(1) have "kv1 (sessionKey s) =
        Some \<lparr>kv_value = \<lparr>count = c, resetAt = R\<rparr>, kv_expiration = e\<rparr>" by simp
    from Cons.IH [of kv1 c e, OF this Cons.prems(2,3) rest] False show ?thesis
      unfolding run by (simp add: x session_requests_Cons)
  next
    case True
    with Cons.prems(4) x have t: "now < R" "R \<le> now + 3600" by (simp_all add: now_def)
    with Cons.prems(1,2) have g: "kv_get kv now (sessionKey s) = Some \<lparr>count = c, resetAt = R\<rparr>"
      by (simp add: kv_get_def)
    show ?thesis
    proof (cases "c = 10")
      case c: True
      with g t have "session_denies kv now s" by (simp add: session_denies_iff)
      then have "kv1 (sessionKey s) = kv (sessionKey s)"
        unfolding kv1_def by (simp add: session_entry_after_any now_def)
      with Cons.prems(1) have "kv1 (sessionKey s) =
          Some \<lparr>kv_value = \<lparr>count = c, resetAt = R\<rparr>, kv_expiration = e\<rparr>" by simp
      from Cons.IH [of kv1 c e, OF this Cons.prems(2,3) rest] True c show ?thesis
        unfolding run by (simp add: x session_requests_Cons)
    next
      case False
      with Cons.prems(3) have c: "c < 10" by simp
      with g have "\<not> session_denies kv now s" by (simp add: session_denies_iff)
      with True g t have "kv1 (sessionKey s) =
          Some \<lparr>kv_value = \<lparr>count = c + 1, resetAt = R\<rparr>, kv_expiration = now + 3600\<rparr>"
        unfolding kv1_def by (simp add: session_entry_after_any now_def [symmetric] next_window_def)
      moreover from c have "c + 1 \<le> 10" by simp
      ultimately obtain e' where "snd (checkRateLimit_all kv1 reqs) (sessionKey s) =
            Some \<lparr>kv_value = \<lparr>count = min (c + 1 + int (session_requests s reqs)) 10, resetAt = R\<rparr>,
                  kv_expiration = e'\<rparr>" "R \<le> e'"
        using Cons.IH [of kv1 "c + 1" "now + 3600"] t(2) rest by blast
      with True show ?thesis
        unfolding run by (simp add: x session_requests_Cons add.assoc add.commute)
    qed
  qed
qed

lemma ip_run:
  assumes "kv (ipKey a) = Some \<lparr>kv_value = \<lparr>count = c, resetAt = R\<rparr>, kv_expiration = e\<rparr>"
    and "R \<le> e" and "c \<le> 100"
    and "\<forall>(s, a', t) \<in> set reqs. a' = a \<longrightarrow> t div 1000 < R \<and> R \<le> t div 1000 + 86400"
  shows "\<exists>e'. snd (checkRateLimit_all kv reqs) (ipKey a) =
            Some \<lparr>kv_value = \<lparr>count = min (c + int (ip_requests_tested a kv reqs)) 100, resetAt = R\<rparr>,
                  kv_expiration = e'\<rparr> \<and> R \<le> e'"
  using assms
proof (induction reqs arbitrary: kv c e)
  case Nil
  then show ?case by (simp add: ip_requests_tested_def)
next
  case (Cons x reqs)
  obtain s a' t where x: "x = (s, a', t)" by (cases x)
  define now where "now = t div 1000"
  define kv1 where "kv1 = snd (checkRateLimit s a' kv t)"
  from Cons.prems(4) have rest:
    "\<forall>(s, a', t) \<in> set reqs. a' = a \<longrightarrow> t div 1000 < R \<and> R \<le> t div 1000 + 86400"
    by simp
  have run: "snd (checkRateLimit_all kv (x # reqs)) = snd (checkRateLimit_all kv1 reqs)"
    unfolding x kv1_def by (rule checkRateLimit_all_Cons_snd)
  have cnt: "ip_requests_tested a kv (x # reqs) =
     (if a' = a \<and> \<not> session_denies kv now s then 1 else 0) + ip_requests_tested a kv1 reqs"
    unfolding x kv1_def now_def by (rule ip_requests_tested_Cons)
  have same: ?case if "kv1 (ipKey a) = kv (ipKey a)"
      and "min (c + int (ip_requests_tested a kv (x # reqs))) 100
         = min (c + int (ip_requests_tested a kv1 reqs)) 100"
  proof -
    from that(1) Cons.prems(1) have "kv1 (ipKey a) =
        Some \<lparr>kv_value = \<lparr>count = c, resetAt = R\<rparr>, kv_expiration = e\<rparr>" by simp
    from Cons.IH [of kv1 c e, OF this Cons.prems(2,3) rest] that(2) show ?thesis
      unfolding run by simp
  qed
  show ?case
  proof (cases "a' = a \<and> \<not> session_denies kv now s")
    case False
    then have "kv1 (ipKey a) = kv (ipKey a)"
      unfolding kv1_def by (auto simp add: ip_entry_after now_def)
    moreover from False have "ip_requests_tested a kv (x # reqs) = ip_requests_tested a kv1 reqs"
      unfolding cnt by auto
    ultimately show ?thesis by (intro same) simp_all
  next
    case True
    with Cons.prems(4) x have t: "now < R" "R \<le> now + 86400" by (simp_all add: now_def)
    with Cons.prems(1,2) have g: "kv_get kv now (ipKey a) = Some \<lparr>count = c, resetAt = R\<rparr>"
      by (simp add: kv_get_def)
    from True have cnt': "ip_requests_tested a kv (x # reqs) = 1 + ip_requests_tested a kv1 reqs"
      unfolding cnt by simp
    show ?thesis
    proof (cases "c = 100")
      case c: True
      with g t have "ip_denies kv now a" by (simp add: ip_denies_iff)
      then have "kv1 (ipKey a) = kv (ipKey a)"
        unfolding kv1_def by (simp add: ip_entry_after now_def)
      moreover from c have "min (c + int (ip_requests_tested a kv (x # reqs))) 100
         = min (c + int (ip_requests_tested a kv1 reqs)) 100"
        unfolding cnt' by simp
      ultimately show ?thesis by (rule same)
    next
      case False
      with Cons.prems(3) have c: "c < 100" by simp
      with g have "\<not> ip_denies kv now a" by (simp add: ip_denies_iff)
      with True g t have "kv1 (ipKey a) =
          Some \<lparr>kv_value = \<lparr>count = c + 1, resetAt = R\<rparr>, kv_expiration = now + 86400\<rparr>"
        unfolding kv1_def by (simp add: ip_entry_after now_def [symmetric] next_window_def)
      moreover from c have "c + 1 \<le> 100" by simp
      ultimately obtain e' where "snd (checkRateLimit_all kv1 reqs) (ipKey a) =
            Some \<lparr>kv_value = \<lparr>count = min (c + 1 + int (ip_requests_tested a kv1 reqs)) 100, resetAt = R\<rparr>,
                  kv_expiration = e'\<rparr>" "R \<le> e'"
        using Cons.IH [of kv1 "c + 1" "now + 86400"] t(2) rest by blast
      then show ?thesis
        unfolding run cnt' by (simp add: add.assoc add.commute)
    qed
  qed
qed


lemma allowed_iff_ip_admits:
  assumes "\<not> session_denies kv (t div 1000) s"
  shows "allowed (fst (checkRateLimit s a kv t)) \<longleftrightarrow> \<not> ip_denies kv (t div 1000) a"
  unfolding checkRateLimit_session_admitted [OF assms] Let_def ip_denies_def
  by (simp split: option.split)

lemma allowed_iff_session_admits:
  assumes "\<not> ip_denies kv (t div 1000) a"
  shows "allowed (fst (checkRateLimit s a kv t)) \<longleftrightarrow> \<not> session_denies kv (t div 1000) s"
proof (cases "session_denies kv (t div 1000) s")
  case True
  then obtain d where "kv_get kv (t div 1000) (sessionKey s) = Some d" "t div 1000 < resetAt d"
      "10 \<le> count d"
    by (auto simp add: session_denies_iff)
  from checkRateLimit_session_denied [OF this] True show ?thesis by simp
next
  case False
  with allowed_iff_ip_admits [OF False, of a] assms show ?thesis by simp
qed

lemma denied_retryAfter_positive:
  assumes "\<not> allowed (fst (checkRateLimit s a kv t))"
  shows "\<exists>secs. retryAfter (fst (checkRateLimit s a kv t)) = Some secs \<and> 0 < secs"
proof (cases "session_denies kv (t div 1000) s")
  case True
  then obtain d where d: "kv_get kv (t div 1000) (sessionKey s) = Some d" "t div 1000 < resetAt d"
      "10 \<le> count d"
    by (auto simp add: session_denies_iff)
  from checkRateLimit_session_denied [OF d] d(2) show ?thesis by (simp add: rate_denied_def)
next
  case False
  with assms allowed_iff_ip_admits [OF False, of a] have "ip_denies kv (t div 1000) a" by simp
  then obtain w where w: "kv_get kv (t div 1000) (ipKey a) = Some w" "t div 1000 < resetAt w"
      "100 \<le> count w"
    by (auto simp add: ip_denies_iff)
  from checkRateLimit_ip_denied [OF False w] w(2) show ?thesis by (simp add: rate_denied_def)
qed

lemma session_window_step:
  assumes "kv (sessionKey s) = Some \<lparr>kv_value = \<lparr>count = c, resetAt = R\<rparr>, kv_expiration = e\<rparr>"
    and "R \<le> e"
  shows "t div 1000 < R \<Longrightarrow> c < 10 \<Longrightarrow>
           (allowed (fst (checkRateLimit s a kv t)) \<longleftrightarrow> \<not> ip_denies kv (t div 1000) a)
         \<and> snd (checkRateLimit s a kv t) (sessionKey s) =
             Some \<lparr>kv_value = \<lparr>count = c + 1, resetAt = R\<rparr>, kv_expiration = t div 1000 + 3600\<rparr>"
    and "t div 1000 < R \<Longrightarrow> 10 \<le> c \<Longrightarrow>
           checkRateLimit s a kv t = (rate_denied session_limit_reason (R - t div 1000), kv)"
    and "R \<le> t div 1000 \<Longrightarrow>
           (allowed (fst (checkRateLimit s a kv t)) \<longleftrightarrow> \<not> ip_denies kv (t div 1000) a)
         \<and> snd (checkRateLimit s a kv t) (sessionKey s) =
             Some \<lparr>kv_value = \<lparr>count = 1, resetAt = t div 1000 + 3600\<rparr>,
                   kv_expiration = t div 1000 + 3600\<rparr>"
proof -
  define now where "now = t div 1000"
  have live: "kv_get kv now (sessionKey s) = Some \<lparr>count = c, resetAt = R\<rparr>" if "now < R"
    using that assms by (simp add: kv_get_def)
  have late: "kv_get kv now (sessionKey s) = None
            \<or> (\<exists>d. kv_get kv now (sessionKey s) = Some d \<and> resetAt d \<le> now)" if "R \<le> now"
    using that assms by (simp add: kv_get_def)
  show "(allowed (fst (checkRateLimit s a kv t)) \<longleftrightarrow> \<not> ip_denies kv (t div 1000) a)
         \<and> snd (checkRateLimit s a kv t) (sessionKey s) =
             Some \<lparr>kv_value = \<lparr>count = c + 1, resetAt = R\<rparr>, kv_expiration = t div 1000 + 3600\<rparr>"
    if "t div 1000 < R" "c < 10"
  proof -
    from that live have g: "kv_get kv now (sessionKey s) = Some \<lparr>count = c, resetAt = R\<rparr>"
      by (simp add: now_def)
    with that have nd: "\<not> session_denies kv (t div 1000) s"
      by (simp add: session_denies_iff now_def [symmetric])
    from session_entry_after_any [of s a kv t s] nd g that(1) allowed_iff_ip_admits [OF nd, of a]
    show ?thesis by (simp add: now_def [symmetric] next_window_def)
  qed
  show "checkRateLimit s a kv t = (rate_denied session_limit_reason (R - t div 1000), kv)"
    if "t div 1000 < R" "10 \<le> c"
    using checkRateLimit_session_denied [of kv t s "\<lparr>count = c, resetAt = R\<rparr>" a] live that
    by (simp add: now_def)
  show "(allowed (fst (checkRateLimit s a kv t)) \<longleftrightarrow> \<not> ip_denies kv (t div 1000) a)
         \<and> snd (checkRateLimit s a kv t) (sessionKey s) =
             Some \<lparr>kv_value = \<lparr>count = 1, resetAt = t div 1000 + 3600\<rparr>,
                   kv_expiration = t div 1000 + 3600\<rparr>"
    if "R \<le> t div 1000"
  proof -
    from that late have f: "kv_get kv now (sessionKey s) = None
            \<or> (\<exists>d. kv_get kv now (sessionKey s) = Some d \<and> resetAt d \<le> now)"
      by (simp add: now_def)
    then have nd: "\<not> session_denies kv (t div 1000) s"
      by (auto simp add: session_denies_iff now_def [symmetric])
    from session_entry_after_any [of s a kv t s] nd next_window_fresh [OF f, of 3600]
      allowed_iff_ip_admits [OF nd, of a]
    show ?thesis by (simp add: now_def [symmetric])
  qed
qed

lemma ip_window_step:
  assumes "kv (ipKey a) = Some \<lparr>kv_value = \<lparr>count = c, resetAt = R\<rparr>, kv_expiration = e\<rparr>"
    and "R \<le> e"
  shows "t div 1000 < R \<Longrightarrow> c < 100 \<Longrightarrow>
           (allowed (fst (checkRateLimit s a kv t)) \<longleftrightarrow> \<not> session_denies kv (t div 1000) s)
         \<and> (\<not> session_denies kv (t div 1000) s \<longrightarrow>
              snd (checkRateLimit s a kv t) (ipKey a) =
                Some \<lparr>kv_value = \<lparr>count = c + 1, resetAt = R\<rparr>, kv_expiration = t div 1000 + 86400\<rparr>)"
    and "t div 1000 < R \<Longrightarrow> 100 \<le> c \<Longrightarrow>
           \<not> allowed (fst (checkRateLimit s a kv t))
         \<and> (\<exists>secs. retryAfter (fst (checkRateLimit s a kv t)) = Some secs \<and> 0 < secs)
         \<and> (\<not> session_denies kv (t div 1000) s \<longrightarrow>
              checkRateLimit s a kv t =
                (rate_denied ip_limit_reason (R - t div 1000), session_written kv (t div 1000) s))"
    and "R \<le> t div 1000 \<Longrightarrow>
           (allowed (fst (checkRateLimit s a kv t)) \<longleftrightarrow> \<not> session_denies kv (t div 1000) s)
         \<and> (\<not> session_denies kv (t div 1000) s \<longrightarrow>
              snd (checkRateLimit s a kv t) (ipKey a) =
                Some \<lparr>kv_value = \<lparr>count = 1, resetAt = t div 1000 + 86400\<rparr>,
                      kv_expiration = t div 1000 + 86400\<rparr>)"
proof -
  define now where "now = t div 1000"
  have live: "kv_get kv now (ipKey a) = Some \<lparr>count = c, resetAt = R\<rparr>" if "now < R"
    using that assms by (simp add: kv_get_def)
  have late: "kv_get kv now (ipKey a) = None
            \<or> (\<exists>d. kv_get kv now (ipKey a) = Some d \<and> resetAt d \<le> now)" if "R \<le> now"
    using that assms by (simp add: kv_get_def)
  show "(allowed (fst (checkRateLimit s a kv t)) \<longleftrightarrow> \<not> session_denies kv (t div 1000) s)
         \<and> (\<not> session_denies kv (t div 1000) s \<longrightarrow>
              snd (checkRateLimit s a kv t) (ipKey a) =
                Some \<lparr>kv_value = \<lparr>count = c + 1, resetAt = R\<rparr>, kv_expiration = t div 1000 + 86400\<rparr>)"
    if "t div 1000 < R" "c < 100"
  proof -
    from that live have g: "kv_get kv now (ipKey a) = Some \<lparr>count = c, resetAt = R\<rparr>"
      by (simp add: now_def)
    with that have nd: "\<not> ip_denies kv (t div 1000) a"
      by (simp add: ip_denies_iff now_def [symmetric])
    from ip_entry_after [of s a kv t a] nd g that(1) allowed_iff_session_admits [OF nd, of s]
    show ?thesis by (simp add: now_def [symmetric] next_window_def)
  qed
  show "\<not> allowed (fst (checkRateLimit s a kv t))
         \<and> (\<exists>secs. retryAfter (fst (checkRateLimit s a kv t)) = Some secs \<and> 0 < secs)
         \<and> (\<not> session_denies kv (t div 1000) s \<longrightarrow>
              checkRateLimit s a kv t =
                (rate_denied ip_limit_reason (R - t div 1000), session_written kv (t div 1000) s))"
    if "t div 1000 < R" "100 \<le> c"
  proof -
    from that live have g: "kv_get kv (t div 1000) (ipKey a) = Some \<lparr>count = c, resetAt = R\<rparr>"
      by (simp add: now_def)
    have d: "checkRateLimit s a kv t =
        (rate_denied ip_limit_reason (R - t div 1000), session_written kv (t div 1000) s)"
      if "\<not> session_denies kv (t div 1000) s"
      using checkRateLimit_ip_denied [OF that g] \<open>t div 1000 < R\<close> \<open>100 \<le> c\<close> by simp
    have n: "\<not> allowed (fst (checkRateLimit s a kv t))"
    proof (cases "session_denies kv (t div 1000) s")
      case True
      then obtain d where "kv_get kv (t div 1000) (sessionKey s) = Some d" "t div 1000 < resetAt d"
          "10 \<le> count d"
        by (auto simp add: session_denies_iff)
      from checkRateLimit_session_denied [OF this] show ?thesis by simp
    next
      case False
      from d [OF this] show ?thesis by simp
    qed
    from n denied_retryAfter_positive [OF n] d show ?thesis by blast
  qed
  show "(allowed (fst (checkRateLimit s a kv t)) \<longleftrightarrow> \<not> session_denies kv (t div 1000) s)
         \<and> (\<not> session_denies kv (t div 1000) s \<longrightarrow>
              snd (checkRateLimit s a kv t) (ipKey a) =
                Some \<lparr>kv_value = \<lparr>count = 1, resetAt = t div 1000 + 86400\<rparr>,
                      kv_expiration = t div 1000 + 86400\<rparr>)"
    if "R \<le> t div 1000"
  proof -
    from that late have f: "kv_get kv now (ipKey a) = None
            \<or> (\<exists>d. kv_get kv now (ipKey a) = Some d \<and> resetAt d \<le> now)"
      by (simp add: now_def)
    then have nd: "\<not> ip_denies kv (t div 1000) a"
      by (auto simp add: ip_denies_iff now_def [symmetric])
    from ip_entry_after [of s a kv t a] nd next_window_fresh [OF f, of 86400]
      allowed_iff_session_admits [OF nd, of s]
    show ?thesis by (simp add: now_def [symmetric])
  qed
qed

lemma session_window_opened:
  assumes fresh: "kv_get kv (t0 div 1000) (sessionKey s) = None
                \<or> (\<exists>d. kv_get kv (t0 div 1000) (sessionKey s) = Some d \<and> resetAt d \<le> t0 div 1000)"
    and window: "\<forall>(s', a, t) \<in> set following.
                   s' = s \<longrightarrow> t0 div 1000 \<le> t div 1000 \<and> t div 1000 < t0 div 1000 + 3600"
  shows "\<exists>e. snd (checkRateLimit_all kv ((s, a0, t0) # following)) (sessionKey s) =
            Some \<lparr>kv_value = \<lparr>count = min (int (session_requests s ((s, a0, t0) # following))) 10,
                               resetAt = t0 div 1000 + 3600\<rparr>,
                  kv_expiration = e\<rparr> \<and> t0 div 1000 + 3600 \<le> e"
proof -
  define R where "R = t0 div 1000 + 3600"
  define kv1 where "kv1 = snd (checkRateLimit s a0 kv t0)"
  from fresh have nd: "\<not> session_denies kv (t0 div 1000) s"
    by (auto simp add: session_denies_iff)
  from session_entry_after_any [of s a0 kv t0 s] nd next_window_fresh [OF fresh, of 3600]
  have kv1: "kv1 (sessionKey s) = Some \<lparr>kv_value = \<lparr>count = 1, resetAt = R\<rparr>, kv_expiration = R\<rparr>"
    by (simp add: kv1_def R_def)
  from window have w: "\<forall>(s', a, t) \<in> set following. s' = s \<longrightarrow> t div 1000 < R \<and> R \<le> t div 1000 + 3600"
    by (auto simp add: R_def)
  from session_run [of kv1 s 1 R R following, OF kv1 _ _ w]
  obtain e where "snd (checkRateLimit_all kv1 following) (sessionKey s) =
            Some \<lparr>kv_value = \<lparr>count = min (1 + int (session_requests s following)) 10, resetAt = R\<rparr>,
                  kv_expiration = e\<rparr>" "R \<le> e"
    by auto
  then show ?thesis
    unfolding checkRateLimit_all_Cons_snd kv1_def [symmetric] R_def [symmetric]
    by (simp add: session_requests_Cons)
qed

lemma ip_window_opened:
  assumes fresh: "kv_get kv (t0 div 1000) (ipKey a) = None
                \<or> (\<exists>d. kv_get kv (t0 div 1000) (ipKey a) = Some d \<and> resetAt d \<le> t0 div 1000)"
    and admitted: "\<not> session_denies kv (t0 div 1000) s0"
    and window: "\<forall>(s, a', t) \<in> set following.
                   a' = a \<longrightarrow> t0 div 1000 \<le> t div 1000 \<and> t div 1000 < t0 div 1000 + 86400"
  shows "\<exists>e. snd (checkRateLimit_all kv ((s0, a, t0) # following)) (ipKey a) =
            Some \<lparr>kv_value = \<lparr>count = min (int (ip_requests_tested a kv ((s0, a, t0) # following))) 100,
                               resetAt = t0 div 1000 + 86400\<rparr>,
                  kv_expiration = e\<rparr> \<and> t0 div 1000 + 86400 \<le> e"
proof -
  define R where "R = t0 div 1000 + 86400"
  define kv1 where "kv1 = snd (checkRateLimit s0 a kv t0)"
  from fresh have nd: "\<not> ip_denies kv (t0 div 1000) a"
    by (auto simp add: ip_denies_iff)
  from ip_entry_after [of s0 a kv t0 a] nd admitted next_window_fresh [OF fresh, of 86400]
  have kv1: "kv1 (ipKey a) = Some \<lparr>kv_value = \<lparr>count = 1, resetAt = R\<rparr>, kv_expiration = R\<rparr>"
    by (simp add: kv1_def R_def)
  from window have w: "\<forall>(s, a', t) \<in> set following. a' = a \<longrightarrow> t div 1000 < R \<and> R \<le> t div 1000 + 86400"
    by (auto simp add: R_def)
  from ip_run [of kv1 a 1 R R following, OF kv1 _ _ w]
  obtain e where "snd (checkRateLimit_all kv1 following) (ipKey a) =
            Some \<lparr>kv_value = \<lparr>count = min (1 + int (ip_requests_tested a kv1 following)) 100, resetAt = R\<rparr>,
                  kv_expiration = e\<rparr>" "R \<le> e"
    by auto
  with admitted show ?thesis
    unfolding checkRateLimit_all_Cons_snd kv1_def [symmetric] R_def [symmetric]
    by (simp add: ip_requests_tested_Cons kv1_def [symmetric])
qed

lemma ip_requests_tested_all:
  assumes "list_all (\<lambda>((s, a', t), result). a' = a \<longrightarrow> reason result \<noteq> Some session_limit_reason)
             (zip reqs (fst (checkRateLimit_all kv reqs)))"
  shows "ip_requests_tested a kv reqs = ip_requests a reqs"
  using assms
proof (induction reqs arbitrary: kv)
  case Nil
  then show ?case by (simp add: ip_requests_tested_def ip_requests_def)
next
  case (Cons x reqs)
  obtain s a' t where x: "x = (s, a', t)" by (cases x)
  obtain r kv1 where r: "checkRateLimit s a' kv t = (r, kv1)" by (cases "checkRateLimit s a' kv t")
  obtain rs kv2 where rs: "checkRateLimit_all kv1 reqs = (rs, kv2)"
    by (cases "checkRateLimit_all kv1 reqs")
  from Cons.prems have hd: "a' = a \<longrightarrow> reason r \<noteq> Some session_limit_reason"
    and tl: "list_all (\<lambda>((s, a', t), result). a' = a \<longrightarrow> reason result \<noteq> Some session_limit_reason)
             (zip reqs (fst (checkRateLimit_all kv1 reqs)))"
    by (simp_all add: x r rs)
  from hd reason_session_iff [of s a' kv t] r
  have "a' = a \<longrightarrow> \<not> session_denies kv (t div 1000) s" by simp
  with Cons.IH [OF tl] r show ?case
    by (auto simp add: x ip_requests_tested_Cons ip_requests_def)
qed

text \<open>
  Claim C1, as amended. A request \<open>(s0, a0, t0)\<close> opens a window, the requests
  \<open>following\<close> come after it, and then the request \<open>(s, a, t)\<close> is checked; the traffic
  may mix any sessions and addresses.

  Session window. When the opening request is of session \<open>s\<close> and finds no live session
  window, and the later requests of \<open>s\<close> fall within the hour, let \<open>n\<close> be the number
  of requests of \<open>s\<close> so far. Before \<open>resetAt\<close>: if \<open>n < 10\<close> (so for the 10th request,
  \<open>n = 9\<close>) the request is allowed exactly when the IP window does not deny it, and it
  is counted, the stored record becoming \<open>n + 1\<close> with the same \<open>resetAt\<close>; if
  \<open>n \<ge> 10\<close> (so for the 11th) it is denied with the session reason and
  \<open>retryAfter = resetAt - now > 0\<close>, and the store is unchanged. At or after \<open>resetAt\<close>
  the request is allowed exactly when the IP window does not deny it, and the stored
  window restarts at count 1 with \<open>resetAt = now + 3600\<close>.

  IP window. When the opening request is from address \<open>a\<close>, is not refused by its session
  window and finds no live IP window, and the later requests from \<open>a\<close> fall within the
  day, let \<open>m\<close> be the number of requests from \<open>a\<close> so far that their session windows
  did not refuse; this is the number of all requests from \<open>a\<close> so far when none of them
  was refused by the session limit. Before \<open>resetAt\<close>: if \<open>m < 100\<close> the request is
  allowed exactly when its session window does not deny it, the stored record then
  becoming \<open>m + 1\<close>; if \<open>m \<ge> 100\<close> it is denied with a positive \<open>retryAfter\<close>, and
  with the IP reason and \<open>retryAfter = resetAt - now\<close> when the session window has not
  denied first. At or after \<open>resetAt\<close> the request is allowed exactly when its session
  window does not deny it, and the stored window then restarts at count 1 with
  \<open>resetAt = now + 86400\<close>.
\<close>

theorem checkRateLimit_window_lifecycle:
  "(let requests = (s0, a0, t0) # following;
        opened = t0 div 1000;
        results = fst (checkRateLimit_all kv requests);
        kv1 = snd (checkRateLimit_all kv requests);
        now = t div 1000;
        r = checkRateLimit s a kv1 t;
        n = int (session_requests s requests);
        m = int (ip_requests_tested a kv requests)
    in
      (s0 = s
       \<and> (kv_get kv opened (sessionKey s) = None
          \<or> (\<exists>d. kv_get kv opened (sessionKey s) = Some d \<and> resetAt d \<le> opened))
       \<and> (\<forall>(s', a', t') \<in> set following.
             s' = s \<longrightarrow> opened \<le> t' div 1000 \<and> t' div 1000 < opened + 3600)
       \<longrightarrow>
         (now < opened + 3600 \<and> n < 10 \<longrightarrow>
            (allowed (fst r) \<longleftrightarrow> \<not> ip_denies kv1 now a)
          \<and> snd r (sessionKey s) =
              Some \<lparr>kv_value = \<lparr>count = n + 1, resetAt = opened + 3600\<rparr>, kv_expiration = now + 3600\<rparr>)
       \<and> (now < opened + 3600 \<and> 10 \<le> n \<longrightarrow>
            r = (\<lparr>allowed = False,
                  reason = Some ''Rate limit exceeded. You can send 10 messages per hour.'',
                  retryAfter = Some (opened + 3600 - now)\<rparr>, kv1)
          \<and> 0 < opened + 3600 - now)
       \<and> (opened + 3600 \<le> now \<longrightarrow>
            (allowed (fst r) \<longleftrightarrow> \<not> ip_denies kv1 now a)
          \<and> snd r (sessionKey s) =
              Some \<lparr>kv_value = \<lparr>count = 1, resetAt = now + 3600\<rparr>, kv_expiration = now + 3600\<rparr>))
    \<and> (a0 = a
       \<and> (kv_get kv opened (ipKey a) = None
          \<or> (\<exists>d. kv_get kv opened (ipKey a) = Some d \<and> resetAt d \<le> opened))
       \<and> \<not> session_denies kv opened s0
       \<and> (\<forall>(s', a', t') \<in> set following.
             a' = a \<longrightarrow> opened \<le> t' div 1000 \<and> t' div 1000 < opened + 86400)
       \<longrightarrow>
         (list_all (\<lambda>((s', a', t'), result). a' = a \<longrightarrow> reason result \<noteq> Some session_limit_reason)
            (zip requests results) \<longrightarrow> m = int (ip_requests a requests))
       \<and> (now < opened + 86400 \<and> m < 100 \<longrightarrow>
            (allowed (fst r) \<longleftrightarrow> \<not> session_denies kv1 now s)
          \<and> (\<not> session_denies kv1 now s \<longrightarrow>
               snd r (ipKey a) =
                 Some \<lparr>kv_value = \<lparr>count = m + 1, resetAt = opened + 86400\<rparr>,
                       kv_expiration = now + 86400\<rparr>))
       \<and> (now < opened + 86400 \<and> 100 \<le> m \<longrightarrow>
            \<not> allowed (fst r)
          \<and> (\<exists>secs. retryAfter (fst r) = Some secs \<and> 0 < secs)
          \<and> (\<not> session_denies kv1 now s \<longrightarrow>
               fst r = \<lparr>allowed = False,
                         reason = Some ''IP rate limit exceeded. Maximum 100 messages per day.'',
                         retryAfter = Some (opened + 86400 - now)\<rparr>
             \<and> 0 < opened + 86400 - now))
       \<and> (opened + 86400 \<le> now \<longrightarrow>
            (allowed (fst r) \<longleftrightarrow> \<not> session_denies kv1 now s)
          \<and> (\<not> session_denies kv1 now s \<longrightarrow>
               snd r (ipKey a) =
                 Some \<lparr>kv_value = \<lparr>count = 1, resetAt = now + 86400\<rparr>,
                       kv_expiration = now + 86400\<rparr>))))"
proof -
  define requests where "requests = (s0, a0, t0) # following"
  define opened where "opened = t0 div 1000"
  define results where "results = fst (checkRateLimit_all kv requests)"
  define kv1 where "kv1 = snd (checkRateLimit_all kv requests)"
  define now where "now = t div 1000"
  define r where "r = checkRateLimit s a kv1 t"
  define n where "n = int (session_requests s requests)"
  define m where "m = int (ip_requests_tested a kv requests)"
  have session:
    "s0 = s
       \<and> (kv_get kv opened (sessionKey s) = None
          \<or> (\<exists>d. kv_get kv opened (sessionKey s) = Some d \<and> resetAt d \<le> opened))
       \<and> (\<forall>(s', a', t') \<in> set following.
             s' = s \<longrightarrow> opened \<le> t' div 1000 \<and> t' div 1000 < opened + 3600)
       \<longrightarrow>
         (now < opened + 3600 \<and> n < 10 \<longrightarrow>
            (allowed (fst r) \<longleftrightarrow> \<not> ip_denies kv1 now a)
          \<and> snd r (sessionKey s) =
              Some \<lparr>kv_value = \<lparr>count = n + 1, resetAt = opened + 3600\<rparr>, kv_expiration = now + 3600\<rparr>)
       \<and> (now < opened + 3600 \<and> 10 \<le> n \<longrightarrow>
            r = (\<lparr>allowed = False,
                  reason = Some ''Rate limit exceeded. You can send 10 messages per hour.'',
                  retryAfter = Some (opened + 3600 - now)\<rparr>, kv1)
          \<and> 0 < opened + 3600 - now)
       \<and> (opened + 3600 \<le> now \<longrightarrow>
            (allowed (fst r) \<longleftrightarrow> \<not> ip_denies kv1 now a)
          \<and> snd r (sessionKey s) =
              Some \<lparr>kv_value = \<lparr>count = 1, resetAt = now + 3600\<rparr>, kv_expiration = now + 3600\<rparr>)"
  proof (intro impI, elim conjE)
    assume s0: "s0 = s"
      and fresh: "kv_get kv opened (sessionKey s) = None
          \<or> (\<exists>d. kv_get kv opened (sessionKey s) = Some d \<and> resetAt d \<le> opened)"
      and window: "\<forall>(s', a', t') \<in> set following.
             s' = s \<longrightarrow> opened \<le> t' div 1000 \<and> t' div 1000 < opened + 3600"
    from session_window_opened [of kv t0 s following a0, folded opened_def, OF fresh window]
    obtain e where st: "kv1 (sessionKey s) =
        Some \<lparr>kv_value = \<lparr>count = min n 10, resetAt = opened + 3600\<rparr>, kv_expiration = e\<rparr>"
      and e: "opened + 3600 \<le> e"
      unfolding kv1_def requests_def n_def s0 by (elim exE conjE)
    note step = session_window_step [where kv = kv1 and s = s and c = "min n 10" and R = "opened + 3600"
        and e = e and t = t and a = a, OF st e, folded now_def r_def]
    have 1: "(allowed (fst r) \<longleftrightarrow> \<not> ip_denies kv1 now a)
          \<and> snd r (sessionKey s) =
              Some \<lparr>kv_value = \<lparr>count = n + 1, resetAt = opened + 3600\<rparr>, kv_expiration = now + 3600\<rparr>"
      if "now < opened + 3600" "n < 10"
      using step(1) that by simp
    have 2: "r = (\<lparr>allowed = False,
                  reason = Some ''Rate limit exceeded. You can send 10 messages per hour.'',
                  retryAfter = Some (opened + 3600 - now)\<rparr>, kv1)
          \<and> 0 < opened + 3600 - now"
      if "now < opened + 3600" "10 \<le> n"
      using step(2) that by (simp add: rate_denied_def session_limit_reason_text)
    have 3: "(allowed (fst r) \<longleftrightarrow> \<not> ip_denies kv1 now a)
          \<and> snd r (sessionKey s) =
              Some \<lparr>kv_value = \<lparr>count = 1, resetAt = now + 3600\<rparr>, kv_expiration = now + 3600\<rparr>"
      if "opened + 3600 \<le> now"
      using step(3) that by simp
    show "(now < opened + 3600 \<and> n < 10 \<longrightarrow>
            (allowed (fst r) \<longleftrightarrow> \<not> ip_denies kv1 now a)
          \<and> snd r (sessionKey s) =
              Some \<lparr>kv_value = \<lparr>count = n + 1, resetAt = opened + 3600\<rparr>, kv_expiration = now + 3600\<rparr>)
       \<and> (now < opened + 3600 \<and> 10 \<le> n \<longrightarrow>
            r = (\<lparr>allowed = False,
                  reason = Some ''Rate limit exceeded. You can send 10 messages per hour.'',
                  retryAfter = Some (opened + 3600 - now)\<rparr>, kv1)
          \<and> 0 < opened + 3600 - now)
       \<and> (opened + 3600 \<le> now \<longrightarrow>
            (allowed (fst r) \<longleftrightarrow> \<not> ip_denies kv1 now a)
          \<and> snd r (sessionKey s) =
              Some \<lparr>kv_value = \<lparr>count = 1, resetAt = now + 3600\<rparr>, kv_expiration = now + 3600\<rparr>)"
    proof (intro conjI impI)
      assume "now < opened + 3600 \<and> n < 10"
      with 1 show "allowed (fst r) \<longleftrightarrow> \<not> ip_denies kv1 now a"
        and "snd r (sessionKey s) =
              Some \<lparr>kv_value = \<lparr>count = n + 1, resetAt = opened + 3600\<rparr>, kv_expiration = now + 3600\<rparr>"
        by simp_all
    next
      assume "now < opened + 3600 \<and> 10 \<le> n"
      with 2 show "r = (\<lparr>allowed = False,
                  reason = Some ''Rate limit exceeded. You can send 10 messages per hour.'',
                  retryAfter = Some (opened + 3600 - now)\<rparr>, kv1)"
        and "0 < opened + 3600 - now"
        by simp_all
    next
      assume "opened + 3600 \<le> now"
      with 3 show "allowed (fst r) \<longleftrightarrow> \<not> ip_denies kv1 now a"
        and "snd r (sessionKey s) =
              Some \<lparr>kv_value = \<lparr>count = 1, resetAt = now + 3600\<rparr>, kv_expiration = now + 3600\<rparr>"
        by simp_all
    qed
  qed
  have ip:
    "a0 = a
       \<and> (kv_get kv opened (ipKey a) = None
          \<or> (\<exists>d. kv_get kv opened (ipKey a) = Some d \<and> resetAt d \<le> opened))
       \<and> \<not> session_denies kv opened s0
       \<and> (\<forall>(s', a', t') \<in> set following.
             a' = a \<longrightarrow> opened \<le> t' div 1000 \<and> t' div 1000 < opened + 86400)
       \<longrightarrow>
         (list_all (\<lambda>((s', a', t'), result). a' = a \<longrightarrow> reason result \<noteq> Some session_limit_reason)
            (zip requests results) \<longrightarrow> m = int (ip_requests a requests))
       \<and> (now < opened + 86400 \<and> m < 100 \<longrightarrow>
            (allowed (fst r) \<longleftrightarrow> \<not> session_denies kv1 now s)
          \<and> (\<not> session_denies kv1 now s \<longrightarrow>
               snd r (ipKey a) =
                 Some \<lparr>kv_value = \<lparr>count = m + 1, resetAt = opened + 86400\<rparr>,
                       kv_expiration = now + 86400\<rparr>))
       \<and> (now < opened + 86400 \<and> 100 \<le> m \<longrightarrow>
            \<not> allowed (fst r)
          \<and> (\<exists>secs. retryAfter (fst r) = Some secs \<and> 0 < secs)
          \<and> (\<not> session_denies kv1 now s \<longrightarrow>
               fst r = \<lparr>allowed = False,
                         reason = Some ''IP rate limit exceeded. Maximum 100 messages per day.'',
                         retryAfter = Some (opened + 86400 - now)\<rparr>
             \<and> 0 < opened + 86400 - now))
       \<and> (opened + 86400 \<le> now \<longrightarrow>
            (allowed (fst r) \<longleftrightarrow> \<not> session_denies kv1 now s)
          \<and> (\<not> session_denies kv1 now s \<longrightarrow>
               snd r (ipKey a) =
                 Some \<lparr>kv_value = \<lparr>count = 1, resetAt = now + 86400\<rparr>,
                       kv_expiration = now + 86400\<rparr>))"
  proof (intro impI, elim conjE)
    assume a0: "a0 = a"
      and fresh: "kv_get kv opened (ipKey a) = None
          \<or> (\<exists>d. kv_get kv opened (ipKey a) = Some d \<and> resetAt d \<le> opened)"
      and admitted: "\<not> session_denies kv opened s0"
      and window: "\<forall>(s', a', t') \<in> set following.
             a' = a \<longrightarrow> opened \<le> t' div 1000 \<and> t' div 1000 < opened + 86400"
    from ip_window_opened [of kv t0 a s0 following, folded opened_def, OF fresh admitted window]
    obtain e where st: "kv1 (ipKey a) =
        Some \<lparr>kv_value = \<lparr>count = min m 100, resetAt = opened + 86400\<rparr>, kv_expiration = e\<rparr>"
      and e: "opened + 86400 \<le> e"
      unfolding kv1_def requests_def m_def a0 by (elim exE conjE)
    note step = ip_window_step [where kv = kv1 and a = a and c = "min m 100" and R = "opened + 86400"
        and e = e and t = t and s = s, OF st e, folded now_def r_def]
    have 0: "m = int (ip_requests a requests)"
      if "list_all (\<lambda>((s', a', t'), result). a' = a \<longrightarrow> reason result \<noteq> Some session_limit_reason)
            (zip requests results)"
      unfolding m_def using ip_requests_tested_all [OF that [unfolded results_def]] by simp
    have 1: "(allowed (fst r) \<longleftrightarrow> \<not> session_denies kv1 now s)
          \<and> (\<not> session_denies kv1 now s \<longrightarrow>
               snd r (ipKey a) =
                 Some \<lparr>kv_value = \<lparr>count = m + 1, resetAt = opened + 86400\<rparr>,
                       kv_expiration = now + 86400\<rparr>)"
      if "now < opened + 86400" "m < 100"
      using step(1) that by simp
    have 2: "\<not> allowed (fst r)
          \<and> (\<exists>secs. retryAfter (fst r) = Some secs \<and> 0 < secs)
          \<and> (\<not> session_denies kv1 now s \<longrightarrow>
               fst r = \<lparr>allowed = False,
                         reason = Some ''IP rate limit exceeded. Maximum 100 messages per day.'',
                         retryAfter = Some (opened + 86400 - now)\<rparr>
             \<and> 0 < opened + 86400 - now)"
      if "now < opened + 86400" "100 \<le> m"
    proof -
      from that have l: "now < opened + 86400" and c: "100 \<le> min m 100" by simp_all
      from step(2) [OF l c] l show ?thesis
        by (simp add: rate_denied_def ip_limit_reason_text)
    qed
    have 3: "(allowed (fst r) \<longleftrightarrow> \<not> session_denies kv1 now s)
          \<and> (\<not> session_denies kv1 now s \<longrightarrow>
               snd r (ipKey a) =
                 Some \<lparr>kv_value = \<lparr>count = 1, resetAt = now + 86400\<rparr>,
                       kv_expiration = now + 86400\<rparr>)"
      if "opened + 86400 \<le> now"
      using step(3) that by simp
    show "(list_all (\<lambda>((s', a', t'), result). a' = a \<longrightarrow> reason result \<noteq> Some session_limit_reason)
            (zip requests results) \<longrightarrow> m = int (ip_requests a requests))
       \<and> (now < opened + 86400 \<and> m < 100 \<longrightarrow>
            (allowed (fst r) \<longleftrightarrow> \<not> session_denies kv1 now s)
          \<and> (\<not> session_denies kv1 now s \<longrightarrow>
               snd r (ipKey a) =
                 Some \<lparr>kv_value = \<lparr>count = m + 1, resetAt = opened + 86400\<rparr>,
                       kv_expiration = now + 86400\<rparr>))
       \<and> (now < opened + 86400 \<and> 100 \<le> m \<longrightarrow>
            \<not> allowed (fst r)
          \<and> (\<exists>secs. retryAfter (fst r) = Some secs \<and> 0 < secs)
          \<and> (\<not> session_denies kv1 now s \<longrightarrow>
               fst r = \<lparr>allowed = False,
                         reason = Some ''IP rate limit exceeded. Maximum 100 messages per day.'',
                         retryAfter = Some (opened + 86400 - now)\<rparr>
             \<and> 0 < opened + 86400 - now))
       \<and> (opened + 86400 \<le> now \<longrightarrow>
            (allowed (fst r) \<longleftrightarrow> \<not> session_denies kv1 now s)
          \<and> (\<not> session_denies kv1 now s \<longrightarrow>
               snd r (ipKey a) =
                 Some \<lparr>kv_value = \<lparr>count = 1, resetAt = now + 86400\<rparr>,
                       kv_expiration = now + 86400\<rparr>))"
    proof (intro conjI)
      show "list_all (\<lambda>((s', a', t'), result). a' = a \<longrightarrow> reason result \<noteq> Some session_limit_reason)
            (zip requests results) \<longrightarrow> m = int (ip_requests a requests)"
        using 0 by (rule impI)
      show "now < opened + 86400 \<and> m < 100 \<longrightarrow>
            (allowed (fst r) \<longleftrightarrow> \<not> session_denies kv1 now s)
          \<and> (\<not> session_denies kv1 now s \<longrightarrow>
               snd r (ipKey a) =
                 Some \<lparr>kv_value = \<lparr>count = m + 1, resetAt = opened + 86400\<rparr>,
                       kv_expiration = now + 86400\<rparr>)"
        using 1 by (intro impI, elim conjE)
      show "now < opened + 86400 \<and> 100 \<le> m \<longrightarrow>
            \<not> allowed (fst r)
          \<and> (\<exists>secs. retryAfter (fst r) = Some secs \<and> 0 < secs)
          \<and> (\<not> session_denies kv1 now s \<longrightarrow>
               fst r = \<lparr>allowed = False,
                         reason = Some ''IP rate limit exceeded. Maximum 100 messages per day.'',
                         retryAfter = Some (opened + 86400 - now)\<rparr>
             \<and> 0 < opened + 86400 - now)"
        using 2 by (intro impI, elim conjE)
      show "opened + 86400 \<le> now \<longrightarrow>
            (allowed (fst r) \<longleftrightarrow> \<not> session_denies kv1 now s)
          \<and> (\<not> session_denies kv1 now s \<longrightarrow>
               snd r (ipKey a) =
                 Some \<lparr>kv_value = \<lparr>count = 1, resetAt = now + 86400\<rparr>,
                       kv_expiration = now + 86400\<rparr>)"
        using 3 by (rule impI)
    qed
  qed
  from session ip show ?thesis
    unfolding Let_def requests_def [symmetric] opened_def [symmetric] results_def [symmetric]
      kv1_def [symmetric] now_def [symmetric] r_def [symmetric] n_def [symmetric] m_def [symmetric]
    by (rule conjI)
qed

text \<open>
  The claim as stated fails where the other window denies: the tenth request of a session
  window (stored count 9) is refused when the IP window is full, and the hundredth request
  of an IP window (stored count 99) is refused when its session window is full. It also
  fails where the other window has denied before: when one of the first hundred requests
  of an IP window was refused by the session limit, it was not counted, and the hundred
  and first request of the window is allowed.
\<close>

theorem checkRateLimit_nth_request_denied_by_other_window:
  "\<not> allowed (fst (checkRateLimit ''s1'' ''10.0.0.1''
        [sessionKey ''s1'' \<mapsto> \<lparr>kv_value = \<lparr>count = 9, resetAt = 102600\<rparr>, kv_expiration = 103500\<rparr>,
         ipKey ''10.0.0.1'' \<mapsto> \<lparr>kv_value = \<lparr>count = 100, resetAt = 136400\<rparr>, kv_expiration = 186000\<rparr>]
        100000000))
 \<and> \<not> allowed (fst (checkRateLimit ''s1'' ''10.0.0.1''
        [sessionKey ''s1'' \<mapsto> \<lparr>kv_value = \<lparr>count = 10, resetAt = 102600\<rparr>, kv_expiration = 103500\<rparr>,
         ipKey ''10.0.0.1'' \<mapsto> \<lparr>kv_value = \<lparr>count = 99, resetAt = 136400\<rparr>, kv_expiration = 186000\<rparr>]
        100000000))
 \<and> ip_requests ''10.0.0.1'' (ip_traffic_refused 100) = 100
 \<and> \<not> allowed (fst (checkRateLimit_all Map.empty (ip_traffic_refused 100)) ! 10)
 \<and> allowed (fst (checkRateLimit ''u9'' ''10.0.0.1''
                   (snd (checkRateLimit_all Map.empty (ip_traffic_refused 100))) 106000000))"
proof -
  have a: "\<not> allowed (fst (checkRateLimit ''s1'' ''10.0.0.1''
        [sessionKey ''s1'' \<mapsto> \<lparr>kv_value = \<lparr>count = 9, resetAt = 102600\<rparr>, kv_expiration = 103500\<rparr>,
         ipKey ''10.0.0.1'' \<mapsto> \<lparr>kv_value = \<lparr>count = 100, resetAt = 136400\<rparr>, kv_expiration = 186000\<rparr>]
        100000000))"
    and b: "\<not> allowed (fst (checkRateLimit ''s1'' ''10.0.0.1''
        [sessionKey ''s1'' \<mapsto> \<lparr>kv_value = \<lparr>count = 10, resetAt = 102600\<rparr>, kv_expiration = 103500\<rparr>,
         ipKey ''10.0.0.1'' \<mapsto> \<lparr>kv_value = \<lparr>count = 99, resetAt = 136400\<rparr>, kv_expiration = 186000\<rparr>]
        100000000))"
    by (simp_all add: checkRateLimit_def Let_def kv_get_def kv_put_def ipKey_def sessionKey_def
          VISITOR_LIMIT_def IP_LIMIT_def HOUR_IN_SECONDS_def)
  have c: "ip_requests ''10.0.0.1'' (ip_traffic_refused 100) = 100"
    and d: "\<not> allowed (fst (checkRateLimit_all Map.empty (ip_traffic_refused 100)) ! 10)"
    and e: "allowed (fst (checkRateLimit ''u9'' ''10.0.0.1''
                   (snd (checkRateLimit_all Map.empty (ip_traffic_refused 100))) 106000000))"
    by code_simp+
  from a b c d e show ?thesis by blast
qed

theorem checkRateLimit_window_lifecycle_witness:
  "allowed (fst (checkRateLimit ''s1'' ''10.0.0.1''
                   (snd (checkRateLimit_all Map.empty (session_traffic 9))) 100540000))
 \<and> snd (checkRateLimit ''s1'' ''10.0.0.1''
          (snd (checkRateLimit_all Map.empty (session_traffic 9))) 100540000) (sessionKey ''s1'')
     = Some \<lparr>kv_value = \<lparr>count = 10, resetAt = 103600\<rparr>, kv_expiration = 104140\<rparr>
 \<and> checkRateLimit ''s1'' ''10.0.0.1''
       (snd (checkRateLimit_all Map.empty (session_traffic 10))) 100600000
     = (\<lparr>allowed = False,
         reason = Some ''Rate limit exceeded. You can send 10 messages per hour.'',
         retryAfter = Some 3000\<rparr>,
        snd (checkRateLimit_all Map.empty (session_traffic 10)))
 \<and> allowed (fst (checkRateLimit ''s1'' ''10.0.0.1''
                   (snd (checkRateLimit_all Map.empty (session_traffic 10))) 103600000))
 \<and> snd (checkRateLimit ''s1'' ''10.0.0.1''
          (snd (checkRateLimit_all Map.empty (session_traffic 10))) 103600000) (sessionKey ''s1'')
     = Some \<lparr>kv_value = \<lparr>count = 1, resetAt = 107200\<rparr>, kv_expiration = 107200\<rparr>
 \<and> ip_requests_tested ''10.0.0.1'' Map.empty (ip_traffic 99) = 99
 \<and> allowed (fst (checkRateLimit ''u9'' ''10.0.0.1''
                   (snd (checkRateLimit_all Map.empty (ip_traffic 99))) 105940000))
 \<and> snd (checkRateLimit ''u9'' ''10.0.0.1''
          (snd (checkRateLimit_all Map.empty (ip_traffic 99))) 105940000) (ipKey ''10.0.0.1'')
     = Some \<lparr>kv_value = \<lparr>count = 100, resetAt = 186400\<rparr>, kv_expiration = 192340\<rparr>
 \<and> ip_requests_tested ''10.0.0.1'' Map.empty (ip_traffic 100) = 100
 \<and> ip_requests ''10.0.0.1'' (ip_traffic 100) = 100
 \<and> fst (checkRateLimit ''u10'' ''10.0.0.1''
          (snd (checkRateLimit_all Map.empty (ip_traffic 100))) 106000000)
     = \<lparr>allowed = False,
        reason = Some ''IP rate limit exceeded. Maximum 100 messages per day.'',
        retryAfter = Some 80400\<rparr>
 \<and> allowed (fst (checkRateLimit ''u10'' ''10.0.0.1''
                   (snd (checkRateLimit_all Map.empty (ip_traffic 100))) 186400000))
 \<and> snd (checkRateLimit ''u10'' ''10.0.0.1''
          (snd (checkRateLimit_all Map.empty (ip_traffic 100))) 186400000) (ipKey ''10.0.0.1'')
     = Some \<lparr>kv_value = \<lparr>count = 1, resetAt = 272800\<rparr>, kv_expiration = 272800\<rparr>"
proof -
  have fresh_s: "kv_get Map.empty (100000000 div 1000) (sessionKey ''s1'') = None"
    and fresh_i: "kv_get Map.empty (100000000 div 1000) (ipKey ''10.0.0.1'') = None"
    and open_s: "\<not> session_denies Map.empty (100000000 div 1000) ''u0''"
    by (simp_all add: kv_get_def session_denies_def)
  have s9: "session_traffic 9 = (''s1'', ''10.0.0.1'', 100000000) # tl (session_traffic 9)"
    and s10: "session_traffic 10 = (''s1'', ''10.0.0.1'', 100000000) # tl (session_traffic 10)"
    and i99: "ip_traffic 99 = (''u0'', ''10.0.0.1'', 100000000) # tl (ip_traffic 99)"
    and i100: "ip_traffic 100 = (''u0'', ''10.0.0.1'', 100000000) # tl (ip_traffic 100)"
    by code_simp+
  have ws9: "\<forall>(s', a', t') \<in> set (tl (session_traffic 9)).
      s' = ''s1'' \<longrightarrow> 100000000 div 1000 \<le> t' div 1000 \<and> t' div 1000 < 100000000 div 1000 + 3600"
    and ws10: "\<forall>(s', a', t') \<in> set (tl (session_traffic 10)).
      s' = ''s1'' \<longrightarrow> 100000000 div 1000 \<le> t' div 1000 \<and> t' div 1000 < 100000000 div 1000 + 3600"
    and wi99: "\<forall>(s', a', t') \<in> set (tl (ip_traffic 99)).
      a' = ''10.0.0.1'' \<longrightarrow> 100000000 div 1000 \<le> t' div 1000 \<and> t' div 1000 < 100000000 div 1000 + 86400"
    and wi100: "\<forall>(s', a', t') \<in> set (tl (ip_traffic 100)).
      a' = ''10.0.0.1'' \<longrightarrow> 100000000 div 1000 \<le> t' div 1000 \<and> t' div 1000 < 100000000 div 1000 + 86400"
    by code_simp+
  have n9: "int (session_requests ''s1'' (session_traffic 9)) = 9"
    and n10: "int (session_requests ''s1'' (session_traffic 10)) = 10"
    by code_simp+
  have m99: "ip_requests_tested ''10.0.0.1'' Map.empty (ip_traffic 99) = 99"
    and m100: "ip_requests_tested ''10.0.0.1'' Map.empty (ip_traffic 100) = 100"
    by code_simp+
  have ia9: "\<not> ip_denies (snd (checkRateLimit_all Map.empty (session_traffic 9))) (100540000 div 1000) ''10.0.0.1''"
    and ia10: "\<not> ip_denies (snd (checkRateLimit_all Map.empty (session_traffic 10))) (103600000 div 1000) ''10.0.0.1''"
    and sa99: "\<not> session_denies (snd (checkRateLimit_all Map.empty (ip_traffic 99))) (105940000 div 1000) ''u9''"
    and sa100: "\<not> session_denies (snd (checkRateLimit_all Map.empty (ip_traffic 100))) (106000000 div 1000) ''u10''"
    and sa100': "\<not> session_denies (snd (checkRateLimit_all Map.empty (ip_traffic 100))) (186400000 div 1000) ''u10''"
    by code_simp+
  note T = checkRateLimit_window_lifecycle [unfolded Let_def]
  from T [where ?s0.0 = "''s1''" and ?a0.0 = "''10.0.0.1''" and ?t0.0 = 100000000 and following = "tl (session_traffic 9)"
           and kv = Map.empty and s = "''s1''" and a = "''10.0.0.1''" and t = 100540000, folded s9] fresh_s ws9 n9 ia9
  have a: "allowed (fst (checkRateLimit ''s1'' ''10.0.0.1''
                   (snd (checkRateLimit_all Map.empty (session_traffic 9))) 100540000))
     \<and> snd (checkRateLimit ''s1'' ''10.0.0.1''
          (snd (checkRateLimit_all Map.empty (session_traffic 9))) 100540000) (sessionKey ''s1'')
       = Some \<lparr>kv_value = \<lparr>count = 10, resetAt = 103600\<rparr>, kv_expiration = 104140\<rparr>"
    by simp
  from T [where ?s0.0 = "''s1''" and ?a0.0 = "''10.0.0.1''" and ?t0.0 = 100000000 and following = "tl (session_traffic 10)"
           and kv = Map.empty and s = "''s1''" and a = "''10.0.0.1''" and t = 100600000, folded s10] fresh_s ws10 n10
  have b: "checkRateLimit ''s1'' ''10.0.0.1''
       (snd (checkRateLimit_all Map.empty (session_traffic 10))) 100600000
     = (\<lparr>allowed = False,
         reason = Some ''Rate limit exceeded. You can send 10 messages per hour.'',
         retryAfter = Some 3000\<rparr>,
        snd (checkRateLimit_all Map.empty (session_traffic 10)))"
    by simp
  from T [where ?s0.0 = "''s1''" and ?a0.0 = "''10.0.0.1''" and ?t0.0 = 100000000 and following = "tl (session_traffic 10)"
           and kv = Map.empty and s = "''s1''" and a = "''10.0.0.1''" and t = 103600000, folded s10] fresh_s ws10 n10 ia10
  have c: "allowed (fst (checkRateLimit ''s1'' ''10.0.0.1''
                   (snd (checkRateLimit_all Map.empty (session_traffic 10))) 103600000))
     \<and> snd (checkRateLimit ''s1'' ''10.0.0.1''
          (snd (checkRateLimit_all Map.empty (session_traffic 10))) 103600000) (sessionKey ''s1'')
       = Some \<lparr>kv_value = \<lparr>count = 1, resetAt = 107200\<rparr>, kv_expiration = 107200\<rparr>"
    by simp
  from T [where ?s0.0 = "''u0''" and ?a0.0 = "''10.0.0.1''" and ?t0.0 = 100000000 and following = "tl (ip_traffic 99)"
           and kv = Map.empty and s = "''u9''" and a = "''10.0.0.1''" and t = 105940000, folded i99] fresh_i open_s wi99 m99 sa99
  have d: "allowed (fst (checkRateLimit ''u9'' ''10.0.0.1''
                   (snd (checkRateLimit_all Map.empty (ip_traffic 99))) 105940000))
     \<and> snd (checkRateLimit ''u9'' ''10.0.0.1''
          (snd (checkRateLimit_all Map.empty (ip_traffic 99))) 105940000) (ipKey ''10.0.0.1'')
       = Some \<lparr>kv_value = \<lparr>count = 100, resetAt = 186400\<rparr>, kv_expiration = 192340\<rparr>"
    by simp
  from T [where ?s0.0 = "''u0''" and ?a0.0 = "''10.0.0.1''" and ?t0.0 = 100000000 and following = "tl (ip_traffic 100)"
           and kv = Map.empty and s = "''u10''" and a = "''10.0.0.1''" and t = 106000000, folded i100] fresh_i open_s wi100 m100 sa100
  have e: "fst (checkRateLimit ''u10'' ''10.0.0.1''
          (snd (checkRateLimit_all Map.empty (ip_traffic 100))) 106000000)
     = \<lparr>allowed = False,
        reason = Some ''IP rate limit exceeded. Maximum 100 messages per day.'',
        retryAfter = Some 80400\<rparr>"
    by simp
  from T [where ?s0.0 = "''u0''" and ?a0.0 = "''10.0.0.1''" and ?t0.0 = 100000000 and following = "tl (ip_traffic 100)"
           and kv = Map.empty and s = "''u10''" and a = "''10.0.0.1''" and t = 186400000, folded i100] fresh_i open_s wi100 m100 sa100'
  have f: "allowed (fst (checkRateLimit ''u10'' ''10.0.0.1''
                   (snd (checkRateLimit_all Map.empty (ip_traffic 100))) 186400000))
     \<and> snd (checkRateLimit ''u10'' ''10.0.0.1''
          (snd (checkRateLimit_all Map.empty (ip_traffic 100))) 186400000) (ipKey ''10.0.0.1'')
       = Some \<lparr>kv_value = \<lparr>count = 1, resetAt = 272800\<rparr>, kv_expiration = 272800\<rparr>"
    by simp
  have none_refused:
    "list_all (\<lambda>((s', a', t'), result). a' = ''10.0.0.1'' \<longrightarrow> reason result \<noteq> Some session_limit_reason)
       (zip (ip_traffic 100) (fst (checkRateLimit_all Map.empty (ip_traffic 100))))"
    by code_simp
  from T [where ?s0.0 = "''u0''" and ?a0.0 = "''10.0.0.1''" and ?t0.0 = 100000000 and following = "tl (ip_traffic 100)"
           and kv = Map.empty and s = "''u10''" and a = "''10.0.0.1''" and t = 106000000, folded i100]
    fresh_i open_s wi100 none_refused m100
  have g: "ip_requests ''10.0.0.1'' (ip_traffic 100) = 100"
    by simp
  from a b c d e f g m99 m100 show ?thesis by blast
qed


section \<open>Properties of retrieval\<close>

subsection \<open>Ranking\<close>

lemma insort_key_map_pair:
  "insort_key (\<lambda>item. - snd item) (e, f e) (map (\<lambda>x. (x, f x)) xs)
     = map (\<lambda>x. (x, f x)) (insort_key (\<lambda>x. - f x) e xs)"
  by (induction xs) simp_all

lemma sort_key_map_pair:
  "sort_key (\<lambda>item. - snd item) (map (\<lambda>x. (x, f x)) xs)
     = map (\<lambda>x. (x, f x)) (sort_key (\<lambda>x. - f x) xs)"
  by (induction xs) (simp_all add: insort_key_map_pair)

lemma filter_map_pair:
  "filter (\<lambda>item. snd item > 0) (map (\<lambda>x. (x, f x)) xs)
     = map (\<lambda>x. (x, f x)) (filter (\<lambda>x. f x > 0) xs)"
  by (induction xs) simp_all

lemma slice0_take:
  "slice0 xs n = take (if n < 0 then nat (int (length xs) + n) else nat n) xs"
  by (simp add: slice0_def)

lemma slice0_map: "map f (slice0 xs n) = slice0 (map f xs) n"
  by (simp add: slice0_def take_map)

lemma set_slice0: "e \<in> set (slice0 xs n) \<Longrightarrow> e \<in> set xs"
  unfolding slice0_take by (rule in_set_takeD)


lemma retrieveEntries_keywords:
  assumes "extractKeywords q \<noteq> []"
  shows "retrieveEntries q kb topN = slice0 (ranked (extractKeywords q) kb) topN"
  using assms
  by (simp add: retrieveEntries_def Let_def filter_map_pair sort_key_map_pair slice0_map
        ranked_def comp_def)

lemma retrieveEntries_no_keywords:
  assumes "extractKeywords q = []"
  shows "retrieveEntries q kb topN =
           slice0 (filter (\<lambda>e. type e = Some ''narrative'' \<and> topic e = Some ''about'') kb) topN"
  using assms by (simp add: retrieveEntries_def)

lemma set_ranked: "set (ranked kws kb) = {e \<in> set kb. scoreEntry e kws > 0}"
  by (simp add: ranked_def)

lemma sorted_ranked: "sorted_wrt (\<lambda>a b. scoreEntry b kws \<le> scoreEntry a kws) (ranked kws kb)"
proof -
  have "sorted (map (\<lambda>e. - scoreEntry e kws) (ranked kws kb))"
    unfolding ranked_def by (rule sorted_sort_key)
  then show ?thesis
    by (simp add: sorted_map)
qed

lemma stable_ranked:
  "filter (\<lambda>e. scoreEntry e kws = k) (ranked kws kb) =
     (if k > 0 then filter (\<lambda>e. scoreEntry e kws = k) kb else [])"
proof -
  have "filter (\<lambda>e. scoreEntry e kws = k) (ranked kws kb)
      = filter (\<lambda>e. - scoreEntry e kws = - k) (ranked kws kb)"
    by simp
  also have "\<dots> = filter (\<lambda>e. - scoreEntry e kws = - k) (filter (\<lambda>e. scoreEntry e kws > 0) kb)"
    unfolding ranked_def by (rule sort_key_stable)
  also have "\<dots> = filter (\<lambda>e. scoreEntry e kws = k \<and> k > 0) kb"
    by (simp add: conj_commute cong: conj_cong)
  also have "\<dots> = (if k > 0 then filter (\<lambda>e. scoreEntry e kws = k) kb else [])"
    by simp
  finally show ?thesis .
qed

lemma sorted_wrt_take': "sorted_wrt R xs \<Longrightarrow> sorted_wrt R (take n xs)"
  by (metis append_take_drop_id sorted_wrt_append)

text \<open>
  Claim C2, as amended. For every question from which at least one keyword is extracted,
  every corpus and every integer \<open>topN\<close>: each entry of the result of \<open>retrieveEntries\<close>
  is an entry of the corpus whose score is not 0; the scores are non-increasing along the
  result; and for every score \<open>k\<close> the entries of the result that score \<open>k\<close> are, in
  the same order, the first entries of the corpus that score \<open>k\<close>. The result has at most
  \<open>topN\<close> entries when \<open>topN\<close> is not negative; for a negative \<open>topN\<close> it is the
  ranked list without its last \<open>- topN\<close> entries.
\<close>

theorem retrieveEntries_ranked:
  assumes "extractKeywords q \<noteq> []"
  shows "(let keywords = extractKeywords q;
              result = retrieveEntries q kb topN
          in (0 \<le> topN \<longrightarrow> int (length result) \<le> topN)
           \<and> (topN < 0 \<longrightarrow>
                result = take (length (ranked keywords kb) - nat (- topN)) (ranked keywords kb))
           \<and> (\<forall>e \<in> set result. e \<in> set kb \<and> scoreEntry e keywords \<noteq> 0)
           \<and> sorted_wrt (\<lambda>a b. scoreEntry a keywords \<ge> scoreEntry b keywords) result
           \<and> (\<forall>k. prefix (filter (\<lambda>e. scoreEntry e keywords = k) result)
                         (filter (\<lambda>e. scoreEntry e keywords = k) kb)))"
proof -
  define kws where "kws = extractKeywords q"
  define n where "n = (if topN < 0 then nat (int (length (ranked kws kb)) + topN) else nat topN)"
  have r: "retrieveEntries q kb topN = take n (ranked kws kb)"
    unfolding kws_def n_def retrieveEntries_keywords [OF assms] by (rule slice0_take)
  have 1: "int (length (take n (ranked kws kb))) \<le> topN" if "0 \<le> topN"
    using that by (simp add: n_def)
  have 0: "take n (ranked kws kb) = take (length (ranked kws kb) - nat (- topN)) (ranked kws kb)"
    if "topN < 0"
  proof -
    from that have "n = length (ranked kws kb) - nat (- topN)"
      by (simp add: n_def)
    then show ?thesis by simp
  qed
  have 2: "e \<in> set kb \<and> scoreEntry e kws \<noteq> 0" if "e \<in> set (take n (ranked kws kb))" for e
  proof -
    from that have "e \<in> set (ranked kws kb)" by (rule in_set_takeD)
    then show ?thesis by (simp add: set_ranked)
  qed
  have 3: "sorted_wrt (\<lambda>a b. scoreEntry a kws \<ge> scoreEntry b kws) (take n (ranked kws kb))"
    by (rule sorted_wrt_take' [OF sorted_ranked])
  have 4: "prefix (filter (\<lambda>e. scoreEntry e kws = k) (take n (ranked kws kb)))
                  (filter (\<lambda>e. scoreEntry e kws = k) kb)" for k
  proof -
    have "prefix (filter (\<lambda>e. scoreEntry e kws = k) (take n (ranked kws kb)))
                 (filter (\<lambda>e. scoreEntry e kws = k) (ranked kws kb))"
      by (rule filter_mono_prefix [OF take_is_prefix])
    then show ?thesis
      by (cases "k > 0") (simp_all add: stable_ranked)
  qed
  show ?thesis
    unfolding Let_def kws_def [symmetric] r using 0 1 2 3 4 by blast
qed

text \<open>
  The claim as stated, for every \<open>topN\<close>, fails at a negative one: with two entries that
  score, \<open>topN = -1\<close> returns one entry, which is more than \<open>topN\<close>.
\<close>

theorem retrieveEntries_negative_topN:
  "extractKeywords ''python'' \<noteq> []
 \<and> map entry_id (retrieveEntries ''python'' [ex_fact, ex_qa] (- 1)) = [''q1'']
 \<and> \<not> int (length (retrieveEntries ''python'' [ex_fact, ex_qa] (- 1))) \<le> - 1"
proof -
  have h: "extractKeywords ''python'' \<noteq> []" by code_simp
  have v: "map entry_id (retrieveEntries ''python'' [ex_fact, ex_qa] (- 1)) = [''q1'']"
    by code_simp
  have "length (map entry_id (retrieveEntries ''python'' [ex_fact, ex_qa] (- 1))) = 1"
    unfolding v by simp
  then have "\<not> int (length (retrieveEntries ''python'' [ex_fact, ex_qa] (- 1))) \<le> - 1"
    by simp
  with h v show ?thesis by blast
qed

theorem retrieveEntries_ranked_witness:
  "extractKeywords ''python'' \<noteq> []
 \<and> map entry_id (retrieveEntries ''python'' [ex_fact, ex_qa, ex_inferred] 2) = [''q1'', ''f1'']
 \<and> int (length (retrieveEntries ''python'' [ex_fact, ex_qa, ex_inferred] 2)) \<le> 2
 \<and> list_all (\<lambda>e. scoreEntry e (extractKeywords ''python'') \<noteq> 0)
       (retrieveEntries ''python'' [ex_fact, ex_qa, ex_inferred] 2)
 \<and> sorted_wrt (\<lambda>a b. scoreEntry a (extractKeywords ''python'') \<ge> scoreEntry b (extractKeywords ''python''))
       (retrieveEntries ''python'' [ex_fact, ex_qa, ex_inferred] 2)
 \<and> retrieveEntries ''python'' [ex_fact, ex_qa, ex_inferred] (- 1) =
       take (length (ranked (extractKeywords ''python'') [ex_fact, ex_qa, ex_inferred]) - 1)
         (ranked (extractKeywords ''python'') [ex_fact, ex_qa, ex_inferred])"
proof -
  have h: "extractKeywords ''python'' \<noteq> []" by code_simp
  have v: "map entry_id (retrieveEntries ''python'' [ex_fact, ex_qa, ex_inferred] 2) = [''q1'', ''f1'']"
    by code_simp
  have p: "(0::int) \<le> 2" and m: "(- 1 :: int) < 0" "nat (- (- 1)) = 1" by simp_all
  from retrieveEntries_ranked [OF h, of "[ex_fact, ex_qa, ex_inferred]" 2] p
  have a: "int (length (retrieveEntries ''python'' [ex_fact, ex_qa, ex_inferred] 2)) \<le> 2
     \<and> list_all (\<lambda>e. scoreEntry e (extractKeywords ''python'') \<noteq> 0)
         (retrieveEntries ''python'' [ex_fact, ex_qa, ex_inferred] 2)
     \<and> sorted_wrt (\<lambda>a b. scoreEntry a (extractKeywords ''python'') \<ge> scoreEntry b (extractKeywords ''python''))
         (retrieveEntries ''python'' [ex_fact, ex_qa, ex_inferred] 2)"
    unfolding Let_def list_all_iff by blast
  from retrieveEntries_ranked [OF h, of "[ex_fact, ex_qa, ex_inferred]" "- 1"] m
  have b: "retrieveEntries ''python'' [ex_fact, ex_qa, ex_inferred] (- 1) =
       take (length (ranked (extractKeywords ''python'') [ex_fact, ex_qa, ex_inferred]) - 1)
         (ranked (extractKeywords ''python'') [ex_fact, ex_qa, ex_inferred])"
    unfolding Let_def by simp
  from h v a b show ?thesis by blast
qed

subsection \<open>Scoring\<close>

lemma foldl_boost:
  "foldl (\<lambda>score kw. if P kw then score + 5 else score) s kws = s + 5 * int (length (filter P kws))"
  by (induction kws arbitrary: s) simp_all

lemma scoreEntry_parts:
  "scoreEntry e kws =
     field_points e kws
     + (if type e = Some ''qa_pair'' \<and> truthy (question e)
        then 5 * int (length (question_matches e kws)) else 0)
     + (if confidence e = Some ''verified'' then 1 else 0)"
  by (simp add: scoreEntry_def field_points_def question_matches_def Let_def foldl_boost)

lemma foldl_invariant:
  assumes "P s" and "\<And>s k. P s \<Longrightarrow> k \<in> set kws \<Longrightarrow> P (f s k)"
  shows "P (foldl f s kws)"
  using assms by (induction kws arbitrary: s) simp_all


lemma field_points_nonneg: "0 \<le> field_points e kws"
  unfolding field_points_def
  by (simp only: Let_def, rule foldl_invariant [where P = "\<lambda>s. 0 \<le> s"]) simp_all

lemma scoreEntry_nonneg: "0 \<le> scoreEntry e kws"
  using field_points_nonneg [of e kws] by (simp add: scoreEntry_parts)




lemma field_points_cong:
  assumes "or_empty (or_else (content a) (answer a)) = or_empty (or_else (content b) (answer b))"
    and "topic a = topic b" and "title a = title b" and "tags a = tags b"
  shows "field_points a kws = field_points b kws"
  using assms by (simp add: field_points_def)



lemma str_includes_iff: "str_includes s k \<longleftrightarrow> (\<exists>pre suf. s = pre @ k @ suf)"
proof (induction s)
  case Nil
  then show ?case by simp
next
  case (Cons c cs)
  show ?case
  proof
    assume "str_includes (c # cs) k"
    then consider "prefix k (c # cs)" | "str_includes cs k" by auto
    then show "\<exists>pre suf. c # cs = pre @ k @ suf"
    proof cases
      case 1
      then obtain suf where "c # cs = k @ suf" by (auto simp add: prefix_def)
      then have "c # cs = [] @ k @ suf" by simp
      then show ?thesis by blast
    next
      case 2
      with Cons.IH obtain pre suf where "cs = pre @ k @ suf" by blast
      then have "c # cs = (c # pre) @ k @ suf" by simp
      then show ?thesis by blast
    qed
  next
    assume "\<exists>pre suf. c # cs = pre @ k @ suf"
    then obtain pre suf where eq: "c # cs = pre @ k @ suf" by blast
    show "str_includes (c # cs) k"
    proof (cases pre)
      case Nil
      with eq have "prefix k (c # cs)" by (simp add: prefix_def)
      then show ?thesis by simp
    next
      case (Cons p pre')
      with eq have "cs = pre' @ k @ suf" by simp
      with Cons.IH have "str_includes cs k" by blast
      then show ?thesis by simp
    qed
  qed
qed

lemma str_includes_toLowerCase:
  assumes "str_includes s k" and "toLowerCase k = k"
  shows "str_includes (toLowerCase s) k"
proof -
  from assms(1) obtain pre suf where "s = pre @ k @ suf"
    unfolding str_includes_iff by blast
  then have "toLowerCase s = toLowerCase pre @ toLowerCase k @ toLowerCase suf"
    by (simp add: toLowerCase_def)
  with assms(2) show ?thesis
    unfolding str_includes_iff by auto
qed

lemma str_includes_nonempty: "str_includes s k \<Longrightarrow> k \<noteq> [] \<Longrightarrow> s \<noteq> []"
  by (cases s) simp_all

lemma not_upper_lower_char: "\<not> is_upper (lower_char c)"
proof (cases "is_upper c")
  case True
  then have "(of_char c :: nat) + 32 < 256" by (auto simp add: is_upper_def Let_def)
  then have "((of_char c :: nat) + 32) mod 256 = of_char c + 32" by simp
  with True show ?thesis
    by (auto simp add: is_upper_def lower_char_def Let_def)
next
  case False
  then show ?thesis by (simp add: lower_char_def)
qed

lemma lower_char_fixed: "lower_char c = c \<longleftrightarrow> \<not> is_upper c"
proof
  assume "lower_char c = c"
  with not_upper_lower_char [of c] show "\<not> is_upper c" by simp
next
  assume "\<not> is_upper c"
  then show "lower_char c = c" by (simp add: lower_char_def)
qed

lemma toLowerCase_fixed: "toLowerCase k = k \<longleftrightarrow> (\<forall>c \<in> set k. \<not> is_upper c)"
  by (induction k) (simp_all add: toLowerCase_def lower_char_fixed)

lemma split_whitespace_chars:
  "t \<in> set (split_whitespace s) \<Longrightarrow> set t \<subseteq> set s"
proof (induction s arbitrary: t rule: split_whitespace.induct)
  case (1 s)
  define piece where "piece = takeWhile (\<lambda>c. \<not> is_space c) s"
  define rest where "rest = dropWhile (\<lambda>c. \<not> is_space c) s"
  have p: "set piece \<subseteq> set s" unfolding piece_def by (auto dest: set_takeWhileD)
  have r: "set (dropWhile is_space rest) \<subseteq> set s"
    unfolding rest_def by (meson set_dropWhileD subsetI)
  have eq: "split_whitespace s =
      (if rest = [] then [piece] else piece # split_whitespace (dropWhile is_space rest))"
    by (subst split_whitespace.simps) (simp only: Let_def piece_def rest_def)
  show ?case
  proof (cases "rest = []")
    case True
    with "1.prems" have "t = piece"
      unfolding eq by simp
    with p show ?thesis by simp
  next
    case False
    with "1.prems" have "t = piece \<or> t \<in> set (split_whitespace (dropWhile is_space rest))"
      unfolding eq by simp
    then show ?thesis
    proof
      assume "t = piece"
      with p show ?thesis by simp
    next
      assume "t \<in> set (split_whitespace (dropWhile is_space rest))"
      with "1.IH" [OF piece_def rest_def False] have "set t \<subseteq> set (dropWhile is_space rest)"
        by simp
      with r show ?thesis by blast
    qed
  qed
qed

lemma extractKeywords_lower:
  assumes "k \<in> set (extractKeywords u)"
  shows "toLowerCase k = k \<and> 2 < length k"
proof -
  from assms have t: "k \<in> set (split_whitespace (replace_punctuation (toLowerCase u)))"
    and l: "2 < length k"
    by (simp_all add: extractKeywords_def)
  have "\<not> is_upper c" if "c \<in> set (replace_punctuation (toLowerCase u))" for c
  proof -
    from that obtain d where "c = lower_char d \<or> c = CHR '' ''"
      by (auto simp add: replace_punctuation_def toLowerCase_def split: if_splits)
    then show ?thesis
      by (auto simp add: not_upper_lower_char) (simp add: is_upper_def)
  qed
  with split_whitespace_chars [OF t] have "\<forall>c \<in> set k. \<not> is_upper c" by blast
  with l show ?thesis by (simp add: toLowerCase_fixed)
qed

lemma scoreEntry_boost_lowered_question:
  assumes "K \<in> set keywords"
    and "type qaEntry = Some ''qa_pair''" and "question qaEntry = Some q" and "q \<noteq> []"
    and "str_includes (toLowerCase q) K"
    and "type factEntry = Some ''fact''"
    and "or_empty (or_else (content qaEntry) (answer qaEntry)) =
         or_empty (or_else (content factEntry) (answer factEntry))"
    and "topic qaEntry = topic factEntry" and "title qaEntry = title factEntry"
    and "tags qaEntry = tags factEntry" and "confidence qaEntry = confidence factEntry"
  shows "scoreEntry factEntry keywords + 5 \<le> scoreEntry qaEntry keywords"
proof -
  from assms(3,4) have t: "truthy (question qaEntry)" by (simp add: truthy_def)
  from assms(1,3,5) have "K \<in> set (question_matches qaEntry keywords)"
    by (simp add: question_matches_def or_empty_def)
  then have "question_matches qaEntry keywords \<noteq> []" by auto
  then have "1 \<le> int (length (question_matches qaEntry keywords))"
    by (cases "question_matches qaEntry keywords") simp_all
  moreover have "field_points qaEntry keywords = field_points factEntry keywords"
    using assms(7-10) by (rule field_points_cong)
  ultimately show ?thesis
    using assms(2,6,11) t by (simp add: scoreEntry_parts)
qed

text \<open>
  Claim C4, as amended. For every keyword list containing a keyword \<open>K\<close> in lower case
  (\<open>K.toLowerCase()\<close> is \<open>K\<close>), a question/answer entry whose stored question text is
  not empty and contains \<open>K\<close> scores at least 5 more than a fact entry with the same
  content text (the content, or else the answer), topic, title, tags and confidence. A
  text that contains a non-empty \<open>K\<close> is not empty, and every keyword that
  \<open>extractKeywords\<close> returns is in lower case and not empty (lemma
  \<open>extractKeywords_lower\<close>).
\<close>

theorem scoreEntry_question_boost:
  assumes "K \<in> set keywords" and "toLowerCase K = K"
    and "type qaEntry = Some ''qa_pair''" and "question qaEntry = Some q"
    and "q \<noteq> []" and "str_includes q K"
    and "type factEntry = Some ''fact''"
    and "or_empty (or_else (content qaEntry) (answer qaEntry)) =
         or_empty (or_else (content factEntry) (answer factEntry))"
    and "topic qaEntry = topic factEntry" and "title qaEntry = title factEntry"
    and "tags qaEntry = tags factEntry" and "confidence qaEntry = confidence factEntry"
  shows "scoreEntry factEntry keywords + 5 \<le> scoreEntry qaEntry keywords"
proof -
  from assms(6,2) have "str_includes (toLowerCase q) K"
    by (rule str_includes_toLowerCase)
  from scoreEntry_boost_lowered_question [OF assms(1,3,4,5) this assms(7-12)]
  show ?thesis .
qed

text \<open>
  The claim as stated, for every keyword and every stored question that contains it, fails
  in two places. At a keyword with a capital letter: the stored question
  \<^verbatim>\<open>Which Python?\<close> contains the keyword \<^verbatim>\<open>Python\<close>, but the scorer looks for it in
  the lower-cased question, and the two entries score the same. And at an empty stored
  question, which contains the empty keyword: the scorer skips the questions of an entry
  whose question is empty, and the two entries again score the same.
\<close>

theorem scoreEntry_question_boost_absent:
  "''Python'' \<in> set [''Python'']
 \<and> type ex_qa = Some ''qa_pair'' \<and> question ex_qa = Some ''Which Python?''
 \<and> str_includes ''Which Python?'' ''Python''
 \<and> type ex_fact = Some ''fact''
 \<and> or_empty (or_else (content ex_qa) (answer ex_qa)) = or_empty (or_else (content ex_fact) (answer ex_fact))
 \<and> topic ex_qa = topic ex_fact \<and> title ex_qa = title ex_fact
 \<and> tags ex_qa = tags ex_fact \<and> confidence ex_qa = confidence ex_fact
 \<and> scoreEntry ex_fact [''Python''] = 1 \<and> scoreEntry ex_qa [''Python''] = 1
 \<and> \<not> scoreEntry ex_fact [''Python''] + 5 \<le> scoreEntry ex_qa [''Python'']
 \<and> str_includes [] []
 \<and> scoreEntry ex_fact [[]] = 9 \<and> scoreEntry (ex_qa\<lparr>question := Some []\<rparr>) [[]] = 9
 \<and> \<not> scoreEntry ex_fact [[]] + 5 \<le> scoreEntry (ex_qa\<lparr>question := Some []\<rparr>) [[]]"
proof -
  have 1: "type ex_qa = Some ''qa_pair''" "question ex_qa = Some ''Which Python?''"
      "type ex_fact = Some ''fact''"
      "topic ex_qa = topic ex_fact" "title ex_qa = title ex_fact"
      "tags ex_qa = tags ex_fact" "confidence ex_qa = confidence ex_fact"
    by (simp_all add: ex_qa_def ex_fact_def)
  have 2: "or_empty (or_else (content ex_qa) (answer ex_qa)) =
           or_empty (or_else (content ex_fact) (answer ex_fact))"
    by (simp add: ex_qa_def ex_fact_def or_else_def or_empty_def truthy_def)
  have 3: "str_includes ''Which Python?'' ''Python''" by code_simp
  have a: "scoreEntry ex_fact [''Python''] = 1" and b: "scoreEntry ex_qa [''Python''] = 1"
    by code_simp+
  have c: "scoreEntry ex_fact [[]] = 9" and d: "scoreEntry (ex_qa\<lparr>question := Some []\<rparr>) [[]] = 9"
    by code_simp+
  from 1 2 3 a b c d show ?thesis by simp
qed

theorem scoreEntry_question_boost_witness:
  "''services'' \<in> set [''services''] \<and> toLowerCase ''services'' = ''services''
 \<and> str_includes ''What services does Jane offer?'' ''services''
 \<and> scoreEntry ex_services_fact [''services''] = 4 \<and> scoreEntry ex_services_qa [''services''] = 9
 \<and> scoreEntry ex_services_fact [''services''] + 5 \<le> scoreEntry ex_services_qa [''services'']"
proof -
  have 1: "''services'' \<in> set [''services'']" by simp
  have 2: "toLowerCase ''services'' = ''services''" by code_simp
  have 3: "type ex_services_qa = Some ''qa_pair''"
    and 4: "question ex_services_qa = Some ''What services does Jane offer?''"
    and 5: "''What services does Jane offer?'' \<noteq> []"
    and 7: "type ex_services_fact = Some ''fact''"
    and 9: "topic ex_services_qa = topic ex_services_fact"
    and 10: "title ex_services_qa = title ex_services_fact"
    and 11: "tags ex_services_qa = tags ex_services_fact"
    and 12: "confidence ex_services_qa = confidence ex_services_fact"
    by (simp_all add: ex_services_qa_def ex_services_fact_def)
  have 6: "str_includes ''What services does Jane offer?'' ''services''" by code_simp
  have 8: "or_empty (or_else (content ex_services_qa) (answer ex_services_qa)) =
           or_empty (or_else (content ex_services_fact) (answer ex_services_fact))"
    by (simp add: ex_services_qa_def ex_services_fact_def or_else_def or_empty_def truthy_def)
  have a: "scoreEntry ex_services_fact [''services''] = 4"
    and b: "scoreEntry ex_services_qa [''services''] = 9"
    by code_simp+
  from scoreEntry_question_boost [OF 1 2 3 4 5 6 7 8 9 10 11 12] 1 2 6 a b show ?thesis by blast
qed





subsection \<open>Context formatting\<close>

declare entry_markers.simps(2) [simp del]

lemma entry_markers_skip [simp]:
  "c \<noteq> CHR ''['' \<Longrightarrow> entry_markers (c # cs) = entry_markers cs"
  by (simp add: entry_markers.simps(2))

lemma entry_markers_field:
  assumes "marker_free f" and "c \<notin> set ''Entry ''"
  shows "entry_markers (f @ c # b) = entry_markers (c # b)"
  using assms(1)
proof (induction f)
  case Nil
  then show ?case by simp
next
  case (Cons x f)
  from Cons.prems have np: "\<not> prefix ''[Entry '' (x # f)" and mf: "marker_free f"
    by (simp_all add: marker_free_def)
  have "\<not> prefix ''[Entry '' ((x # f) @ c # b)"
  proof
    assume "prefix ''[Entry '' ((x # f) @ c # b)"
    with np obtain us where us: "''[Entry '' = (x # f) @ us" and p: "prefix us (c # b)"
      unfolding prefix_append by blast
    from us np have "us \<noteq> []" by auto
    with p have "hd us = c" by (cases us) simp_all
    moreover from us \<open>us \<noteq> []\<close> have "hd us \<in> set (f @ us)" by simp
    moreover from us have "f @ us = ''Entry ''" by simp
    ultimately show False using assms(2) by simp
  qed
  then have "entry_markers ((x # f) @ c # b) = entry_markers (f @ c # b)"
    by (simp add: entry_markers.simps(2))
  with Cons.IH [OF mf] show ?case by simp
qed

lemma entry_markers_line [simp]:
  "marker_free f \<Longrightarrow> entry_markers (f @ CHR ''\<newline>'' # b) = entry_markers b"
  by (simp add: entry_markers_field)

lemma digit_char_in: "d < 10 \<Longrightarrow> digit_char d \<in> set ''0123456789''"
proof -
  assume "d < 10"
  then have "d \<in> {0, 1, 2, 3, 4, 5, 6, 7, 8, 9}" by auto
  then show ?thesis by (auto simp add: digit_char_def)
qed

lemma show_nat_digits: "set (show_nat n) \<subseteq> set ''0123456789''"
proof (induction n rule: show_nat.induct)
  case (1 n)
  show ?case
  proof (cases "n < 10")
    case True
    then show ?thesis
      using digit_char_in [of n] by (subst show_nat.simps) simp
  next
    case False
    have "n mod 10 < 10" by simp
    from digit_char_in [OF this] "1.IH" [OF False] False show ?thesis
      by (subst show_nat.simps) simp
  qed
qed

lemma show_nat_no_bracket:
  "CHR '']'' \<notin> set (show_nat n)" "CHR ''['' \<notin> set (show_nat n)"
  using show_nat_digits [of n] by auto

lemma entry_markers_no_bracket:
  "CHR ''['' \<notin> set f \<Longrightarrow> entry_markers (f @ b) = entry_markers b"
  by (induction f) (auto simp add: entry_markers.simps(2))

lemma entry_markers_marker [simp]:
  "entry_markers (CHR ''['' # CHR ''E'' # CHR ''n'' # CHR ''t'' # CHR ''r'' # CHR ''y'' # CHR '' '' #
       (show_nat n @ CHR '']'' # b)) = show_nat n # entry_markers b"
proof -
  have t: "takeWhile (\<lambda>x. x \<noteq> CHR '']'') (show_nat n @ CHR '']'' # b) = show_nat n"
  proof -
    have "\<forall>x \<in> set (show_nat n). x \<noteq> CHR '']''"
      using show_nat_no_bracket(1) [of n] by blast
    then show ?thesis by simp
  qed
  have "entry_markers (show_nat n @ CHR '']'' # b) = entry_markers (CHR '']'' # b)"
    using entry_markers_no_bracket [OF show_nat_no_bracket(2), of n "CHR '']'' # b"] by simp
  then show ?thesis
    by (simp add: entry_markers.simps(2) t)
qed

lemma entry_markers_join:
  "list_all marker_free ts \<Longrightarrow> sep = c # sep' \<Longrightarrow> c \<notin> set ''Entry '' \<Longrightarrow>
   (\<And>b. entry_markers (sep @ b) = entry_markers b) \<Longrightarrow>
   entry_markers (join sep ts @ CHR ''\<newline>'' # b) = entry_markers b"
proof (induction sep ts rule: join.induct)
  case (1 sep)
  then show ?case by simp
next
  case (2 sep x)
  then show ?case by simp
next
  case (3 sep x y ys)
  from "3.prems" have x: "marker_free x" and r: "list_all marker_free (y # ys)" by simp_all
  have "entry_markers (x @ c # sep' @ join sep (y # ys) @ CHR ''\<newline>'' # b)
      = entry_markers (c # sep' @ join sep (y # ys) @ CHR ''\<newline>'' # b)"
    by (rule entry_markers_field [OF x "3.prems"(3)])
  also have "\<dots> = entry_markers (sep @ join sep (y # ys) @ CHR ''\<newline>'' # b)"
    using "3.prems"(2) by simp
  also have "\<dots> = entry_markers (join sep (y # ys) @ CHR ''\<newline>'' # b)"
    by (rule "3.prems"(4))
  also have "\<dots> = entry_markers b"
    by (rule "3.IH" [OF r "3.prems"(2,3,4)])
  finally show ?case using "3.prems"(2) by simp
qed

lemma entry_markers_tags [simp]:
  "list_all marker_free ts \<Longrightarrow>
     entry_markers (join '', '' ts @ CHR ''\<newline>'' # b) = entry_markers b"
  by (rule entry_markers_join [where c = "CHR '',''" and sep' = "'' ''"]) simp_all

lemma marker_free_undefined [simp]: "marker_free ''undefined''"
  by (simp add: marker_free_def)

lemma format_entry_markers:
  assumes "well_formed e"
  shows "\<exists>body. format_entry e i = Inr (''[Entry '' @ show_nat (i + 1) @ '']\<newline>'' @ body)
            \<and> (list_all marker_free (printed_fields e) \<longrightarrow>
                 (\<forall>rest. entry_markers (body @ rest) = entry_markers rest))"
proof -
  from assms obtain ts where ts: "tags e = Some ts"
    by (auto simp add: well_formed_def)
  define body where "body =
     ''Type: '' @ interpolate (type e) @ ''\<newline>'' @
     ''Topic: '' @ interpolate (topic e) @ ''\<newline>'' @
     (if truthy (title e) then ''Title: '' @ interpolate (title e) @ ''\<newline>'' else []) @
     (if type e = Some ''qa_pair''
      then ''Question: '' @ interpolate (question e) @ ''\<newline>'' @
           ''Answer: '' @ interpolate (answer e) @ ''\<newline>''
      else ''Content: '' @ interpolate (content e) @ ''\<newline>'') @
     ''Confidence: '' @ interpolate (confidence e) @ ''\<newline>'' @
     ''Tags: '' @ join '', '' ts @ ''\<newline>''"
  have "format_entry e i = Inr (''[Entry '' @ show_nat (i + 1) @ '']\<newline>'' @ body)"
    by (simp add: format_entry_def Let_def ts body_def)
  moreover have "entry_markers (body @ rest) = entry_markers rest"
    if mf: "list_all marker_free (printed_fields e)" for rest
  proof -
    from mf have always: "marker_free (interpolate (type e))" "marker_free (interpolate (topic e))"
        "marker_free (interpolate (confidence e))" "list_all marker_free ts"
      by (simp_all add: printed_fields_def ts)
    from mf have title: "marker_free (interpolate (title e))" if "truthy (title e)"
      using that by (simp add: printed_fields_def)
    from mf have qa: "marker_free (interpolate (question e))" "marker_free (interpolate (answer e))"
      if "type e = Some ''qa_pair''"
      using that by (simp_all add: printed_fields_def)
    from mf have other: "marker_free (interpolate (content e))" if "type e \<noteq> Some ''qa_pair''"
      using that by (simp add: printed_fields_def)
    show ?thesis
      using always title qa other by (simp add: body_def)
  qed
  ultimately show ?thesis by blast
qed


lemma join_Cons: "join sep (x # xs) = (if xs = [] then x else x @ sep @ join sep xs)"
  by (cases xs) simp_all

lemma map_entries_markers:
  assumes "list_all well_formed es"
  shows "\<exists>blocks. map_entries i es = Inr blocks \<and> length blocks = length es
           \<and> (\<forall>j < length es. format_entry (es ! j) (i + j) = Inr (blocks ! j)
                  \<and> prefix (''[Entry '' @ show_nat (i + j + 1) @ '']\<newline>'') (blocks ! j))
           \<and> (list_all (\<lambda>e. list_all marker_free (printed_fields e)) es \<longrightarrow>
                entry_markers (join divider blocks) = map show_nat [i + 1 ..< i + 1 + length es])"
  using assms
proof (induction es arbitrary: i)
  case Nil
  then show ?case by simp
next
  case (Cons e es)
  from Cons.prems have wf: "well_formed e" and rest: "list_all well_formed es" by simp_all
  from format_entry_markers [OF wf, of i] obtain body
    where b: "format_entry e i = Inr (''[Entry '' @ show_nat (i + 1) @ '']\<newline>'' @ body)"
      and m: "list_all marker_free (printed_fields e) \<Longrightarrow>
                entry_markers (body @ rest) = entry_markers rest" for rest
    by blast
  from Cons.IH [OF rest, of "Suc i"] obtain blocks
    where bs: "map_entries (Suc i) es = Inr blocks" and len: "length blocks = length es"
      and pre: "\<And>j. j < length es \<Longrightarrow>
                  format_entry (es ! j) (Suc i + j) = Inr (blocks ! j)
                  \<and> prefix (''[Entry '' @ show_nat (Suc i + j + 1) @ '']\<newline>'') (blocks ! j)"
      and mk: "list_all (\<lambda>e. list_all marker_free (printed_fields e)) es \<Longrightarrow>
                 entry_markers (join divider blocks) = map show_nat [Suc i + 1 ..< Suc i + 1 + length es]"
    by blast
  define block where "block = ''[Entry '' @ show_nat (i + 1) @ '']\<newline>'' @ body"
  have 1: "map_entries i (e # es) = Inr (block # blocks)"
    by (simp add: b bs block_def)
  have 2: "length (block # blocks) = length (e # es)"
    by (simp add: len)
  have 3: "format_entry ((e # es) ! j) (i + j) = Inr ((block # blocks) ! j)
         \<and> prefix (''[Entry '' @ show_nat (i + j + 1) @ '']\<newline>'') ((block # blocks) ! j)"
    if "j < length (e # es)" for j
  proof (cases j)
    case 0
    then show ?thesis by (simp add: block_def b)
  next
    case (Suc k)
    with that have "k < length es" by simp
    from pre [OF this] Suc show ?thesis by simp
  qed
  have 4: "entry_markers (join divider (block # blocks)) =
      map show_nat [i + 1 ..< i + 1 + length (e # es)]"
    if mf: "list_all (\<lambda>e. list_all marker_free (printed_fields e)) (e # es)"
  proof -
    from mf have mfe: "list_all marker_free (printed_fields e)"
      and mfs: "list_all (\<lambda>e. list_all marker_free (printed_fields e)) es"
      by simp_all
    have hd: "entry_markers (block @ r) = show_nat (i + 1) # entry_markers r" for r
      using m [OF mfe, of r] by (simp add: block_def)
    have "entry_markers (join divider (block # blocks)) =
            show_nat (i + 1) # map show_nat [Suc i + 1 ..< Suc i + 1 + length es]"
    proof (cases "blocks = []")
      case True
      with len have "es = []" by simp
      with True hd [of "[]"] show ?thesis by simp
    next
      case False
      have "entry_markers (divider @ join divider blocks) = entry_markers (join divider blocks)"
        by (simp add: divider_def)
      with False hd [of "divider @ join divider blocks"] mk [OF mfs] show ?thesis
        by (simp add: join_Cons)
    qed
    also have "\<dots> = map show_nat [i + 1 ..< i + 1 + length (e # es)]"
    proof -
      have "i + 1 < i + 1 + length (e # es)" by simp
      then have "[i + 1 ..< i + 1 + length (e # es)] = (i + 1) # [Suc (i + 1) ..< i + 1 + length (e # es)]"
        by (rule upt_conv_Cons)
      also have "[Suc (i + 1) ..< i + 1 + length (e # es)] = [Suc i + 1 ..< Suc i + 1 + length es]"
        by (simp del: upt_Suc)
      finally show ?thesis by (simp del: upt_Suc)
    qed
    finally show ?thesis .
  qed
  from 1 2 3 4 show ?case by blast
qed

text \<open>
  Claim C9, as amended. \<open>formatEntriesForContext\<close> maps the empty sequence to the empty
  string. For every sequence of well-formed entries the output is the blocks of the entries
  joined by the divider, one block per entry in input order, the block of the entry at
  position \<open>i\<close> (from 0) being its formatted text and beginning with the marker
  \<^verbatim>\<open>[Entry i+1]\<close>. When in addition no printed field of an entry contains the text
  \<^verbatim>\<open>[Entry \<close>, the index markers that occur in the output are exactly 1, 2, ..., one
  per entry, in input order.
\<close>

theorem formatEntriesForContext_markers:
  "formatEntriesForContext [] = Inr []
 \<and> (list_all well_formed entries \<longrightarrow>
      (\<exists>blocks. length blocks = length entries
         \<and> formatEntriesForContext entries = Inr (join divider blocks)
         \<and> (\<forall>i < length entries.
                format_entry (entries ! i) i = Inr (blocks ! i)
              \<and> prefix (''[Entry '' @ show_nat (i + 1) @ '']\<newline>'') (blocks ! i))
         \<and> (list_all (\<lambda>e. list_all marker_free (printed_fields e)) entries \<longrightarrow>
              entry_markers (join divider blocks) = map show_nat [1 ..< length entries + 1])))"
proof (intro conjI impI)
  show "formatEntriesForContext [] = Inr []"
    by (simp add: formatEntriesForContext_def)
next
  assume "list_all well_formed entries"
  from map_entries_markers [OF this, of 0] obtain blocks
    where "map_entries 0 entries = Inr blocks" and "length blocks = length entries"
      and "\<forall>j < length entries. format_entry (entries ! j) (0 + j) = Inr (blocks ! j)
              \<and> prefix (''[Entry '' @ show_nat (0 + j + 1) @ '']\<newline>'') (blocks ! j)"
      and "list_all (\<lambda>e. list_all marker_free (printed_fields e)) entries \<longrightarrow>
             entry_markers (join divider blocks) = map show_nat [0 + 1 ..< 0 + 1 + length entries]"
    by blast
  then have "length blocks = length entries
         \<and> formatEntriesForContext entries = Inr (join divider blocks)
         \<and> (\<forall>i < length entries.
                format_entry (entries ! i) i = Inr (blocks ! i)
              \<and> prefix (''[Entry '' @ show_nat (i + 1) @ '']\<newline>'') (blocks ! i))
         \<and> (list_all (\<lambda>e. list_all marker_free (printed_fields e)) entries \<longrightarrow>
              entry_markers (join divider blocks) = map show_nat [1 ..< length entries + 1])"
    by (simp add: formatEntriesForContext_def)
  then show "\<exists>blocks. length blocks = length entries
         \<and> formatEntriesForContext entries = Inr (join divider blocks)
         \<and> (\<forall>i < length entries.
                format_entry (entries ! i) i = Inr (blocks ! i)
              \<and> prefix (''[Entry '' @ show_nat (i + 1) @ '']\<newline>'') (blocks ! i))
         \<and> (list_all (\<lambda>e. list_all marker_free (printed_fields e)) entries \<longrightarrow>
              entry_markers (join divider blocks) = map show_nat [1 ..< length entries + 1])"
    by blast
qed

text \<open>
  The claim as stated, for every sequence of well-formed entries, fails at an entry whose
  content mentions an index marker: the output for two entries then has three markers.
\<close>

theorem formatEntriesForContext_marker_in_content:
  "list_all well_formed [ex_ref, ex_fact]
 \<and> formatEntriesForContext [ex_ref, ex_fact] =
     Inr (''[Entry 1]\<newline>Type: fact\<newline>Topic: portfolio\<newline>Content: See [Entry 7] of the portfolio\<newline>Confidence: verified\<newline>Tags: portfolio\<newline>''
          @ ''\<newline>---\<newline>\<newline>''
          @ ''[Entry 2]\<newline>Type: fact\<newline>Topic: skills\<newline>Content: Knows Python\<newline>Confidence: verified\<newline>Tags: python\<newline>'')
 \<and> entry_markers
       (''[Entry 1]\<newline>Type: fact\<newline>Topic: portfolio\<newline>Content: See [Entry 7] of the portfolio\<newline>Confidence: verified\<newline>Tags: portfolio\<newline>''
          @ ''\<newline>---\<newline>\<newline>''
          @ ''[Entry 2]\<newline>Type: fact\<newline>Topic: skills\<newline>Content: Knows Python\<newline>Confidence: verified\<newline>Tags: python\<newline>'')
     = [''1'', ''7'', ''2'']"
proof -
  have wf: "list_all well_formed [ex_ref, ex_fact]" by code_simp
  have v: "formatEntriesForContext [ex_ref, ex_fact] =
     Inr (''[Entry 1]\<newline>Type: fact\<newline>Topic: portfolio\<newline>Content: See [Entry 7] of the portfolio\<newline>Confidence: verified\<newline>Tags: portfolio\<newline>''
          @ ''\<newline>---\<newline>\<newline>''
          @ ''[Entry 2]\<newline>Type: fact\<newline>Topic: skills\<newline>Content: Knows Python\<newline>Confidence: verified\<newline>Tags: python\<newline>'')"
    by code_simp
  have m: "entry_markers
       (''[Entry 1]\<newline>Type: fact\<newline>Topic: portfolio\<newline>Content: See [Entry 7] of the portfolio\<newline>Confidence: verified\<newline>Tags: portfolio\<newline>''
          @ ''\<newline>---\<newline>\<newline>''
          @ ''[Entry 2]\<newline>Type: fact\<newline>Topic: skills\<newline>Content: Knows Python\<newline>Confidence: verified\<newline>Tags: python\<newline>'')
     = [''1'', ''7'', ''2'']"
    by code_simp
  from wf v m show ?thesis by blast
qed

theorem formatEntriesForContext_markers_witness:
  "list_all well_formed [ex_fact, ex_qa]
 \<and> list_all (\<lambda>e. list_all marker_free (printed_fields e)) [ex_fact, ex_qa]
 \<and> formatEntriesForContext [ex_fact, ex_qa] =
     Inr (''[Entry 1]\<newline>Type: fact\<newline>Topic: skills\<newline>Content: Knows Python\<newline>Confidence: verified\<newline>Tags: python\<newline>''
          @ ''\<newline>---\<newline>\<newline>''
          @ ''[Entry 2]\<newline>Type: qa_pair\<newline>Topic: skills\<newline>Question: Which Python?\<newline>Answer: Knows Python\<newline>Confidence: verified\<newline>Tags: python\<newline>'')
 \<and> entry_markers
       (''[Entry 1]\<newline>Type: fact\<newline>Topic: skills\<newline>Content: Knows Python\<newline>Confidence: verified\<newline>Tags: python\<newline>''
          @ ''\<newline>---\<newline>\<newline>''
          @ ''[Entry 2]\<newline>Type: qa_pair\<newline>Topic: skills\<newline>Question: Which Python?\<newline>Answer: Knows Python\<newline>Confidence: verified\<newline>Tags: python\<newline>'')
     = [''1'', ''2'']"
proof -
  have wf: "list_all well_formed [ex_fact, ex_qa]" by code_simp
  have mf: "list_all (\<lambda>e. list_all marker_free (printed_fields e)) [ex_fact, ex_qa]" by code_simp
  have v: "formatEntriesForContext [ex_fact, ex_qa] =
     Inr (''[Entry 1]\<newline>Type: fact\<newline>Topic: skills\<newline>Content: Knows Python\<newline>Confidence: verified\<newline>Tags: python\<newline>''
          @ ''\<newline>---\<newline>\<newline>''
          @ ''[Entry 2]\<newline>Type: qa_pair\<newline>Topic: skills\<newline>Question: Which Python?\<newline>Answer: Knows Python\<newline>Confidence: verified\<newline>Tags: python\<newline>'')"
    by code_simp
  have n: "map show_nat [1 ..< length [ex_fact, ex_qa] + 1] = [''1'', ''2'']" by code_simp
  from formatEntriesForContext_markers [of "[ex_fact, ex_qa]"] wf mf n
  obtain blocks where "formatEntriesForContext [ex_fact, ex_qa] = Inr (join divider blocks)"
    and "entry_markers (join divider blocks) = [''1'', ''2'']"
    by auto
  with v have "entry_markers
       (''[Entry 1]\<newline>Type: fact\<newline>Topic: skills\<newline>Content: Knows Python\<newline>Confidence: verified\<newline>Tags: python\<newline>''
          @ ''\<newline>---\<newline>\<newline>''
          @ ''[Entry 2]\<newline>Type: qa_pair\<newline>Topic: skills\<newline>Question: Which Python?\<newline>Answer: Knows Python\<newline>Confidence: verified\<newline>Tags: python\<newline>'')
     = [''1'', ''2'']"
    by simp
  with wf mf v show ?thesis by blast
qed



section \<open>Properties of the worker\<close>

subsection \<open>Paths through the chat handler\<close>

lemma chat_message_textD:
  assumes "chat_message_text req = Some m"
  shows "\<exists>b. request_json req = Some b \<and> js_get (Some b) ''message'' = Inr (Some (JString m))
             \<and> m \<noteq> [] \<and> length (trim m) \<noteq> 0"
  using assms unfolding chat_message_text_def
  by (auto split: option.splits sum.splits json.splits if_splits)

lemma handleChat_try_generated:
  assumes v: "chat_message_text req = Some message"
    and rl: "checkRateLimit (getSessionId req) (getClientIP req) kv (rateLimitNow clock) = (r, kv')"
    and a: "allowed r"
    and ne: "retrieveEntries message kb 5 \<noteq> []"
    and f: "formatEntriesForContext (retrieveEntries message kb 5) = Inr ctx"
    and g: "generateResponse message ctx (chat_api_key env) (chat_options env) reply = (generated, calls)"
  shows "\<exists>resp. handleChat_try req env kv clock kb reply = (Inr resp, kv', calls)
           \<and> status resp = 200
           \<and> headers resp = (''Content-Type'', ''application/json'') # getCorsHeaders (headers_get req ''Origin'')
           \<and> response_message resp =
               Some (case generated of Inl error \<Rightarrow> getFallbackResponse | Inr text \<Rightarrow> text)"
proof -
  from chat_message_textD [OF v] obtain b where b: "request_json req = Some b"
    and m: "js_get (Some b) ''message'' = Inr (Some (JString message))"
    and m1: "message \<noteq> []" and m2: "length (trim message) \<noteq> 0"
    by blast
  show ?thesis
    using m1 m2 a ne g
    by (cases "toLowerCase (or_empty (or_else (AI_PROVIDER env) (Some ''openai''))) = ''anthropic''";
        cases "truthy (AI_MODEL env)")
       (simp_all add: handleChat_try_def Let_def b m rl f chat_api_key_def chat_options_def
          response_message_def)
qed


lemma cors_tail_intros:
  "cors_tail req \<lparr>status = s, headers = getCorsHeaders (headers_get req ''Origin''), body = b\<rparr>"
  "cors_tail req \<lparr>status = s, headers = (''Content-Type'', v) # getCorsHeaders (headers_get req ''Origin''), body = b\<rparr>"
  "cors_tail req \<lparr>status = s, headers = (''Content-Type'', v) # (''Retry-After'', w) # getCorsHeaders (headers_get req ''Origin''), body = b\<rparr>"
proof -
  show "cors_tail req \<lparr>status = s, headers = getCorsHeaders (headers_get req ''Origin''), body = b\<rparr>"
    unfolding cors_tail_def by (rule exI [where x = "[]"]) simp
  show "cors_tail req \<lparr>status = s, headers = (''Content-Type'', v) # getCorsHeaders (headers_get req ''Origin''), body = b\<rparr>"
    unfolding cors_tail_def by (rule exI [where x = "[(''Content-Type'', v)]"]) simp
  show "cors_tail req \<lparr>status = s, headers = (''Content-Type'', v) # (''Retry-After'', w) # getCorsHeaders (headers_get req ''Origin''), body = b\<rparr>"
    unfolding cors_tail_def by (rule exI [where x = "[(''Content-Type'', v), (''Retry-After'', w)]"]) simp
qed

lemma handleChat_try_invalid:
  assumes "chat_message_text req = None"
  shows "(\<exists>err. handleChat_try req env kv clock kb reply = (Inl err, kv, []))
       \<or> (\<exists>resp. handleChat_try req env kv clock kb reply = (Inr resp, kv, [])
              \<and> status resp = 400 \<and> cors_tail req resp)"
proof (cases "request_json req")
  case None
  then show ?thesis by (simp add: handleChat_try_def)
next
  case (Some b)
  show ?thesis
  proof (cases "js_get (Some b) ''message''")
    case (Inl e)
    with Some show ?thesis by (simp add: handleChat_try_def)
  next
    case (Inr m)
    with Some assms have
      "(case m of Some (JString text) \<Rightarrow> if text \<noteq> [] \<and> length (trim text) \<noteq> 0 then Some text else None
        | _ \<Rightarrow> None) = None"
      by (auto simp add: chat_message_text_def split: option.splits json.splits if_splits)
    with Some Inr show ?thesis
      by (simp add: handleChat_try_def Let_def cors_tail_intros)
  qed
qed

lemma handleChat_try_valid:
  assumes v: "chat_message_text req = Some message"
    and rl: "checkRateLimit (getSessionId req) (getClientIP req) kv (rateLimitNow clock) = (r, kv')"
  shows "(\<exists>err. handleChat_try req env kv clock kb reply = (Inl err, kv', []))
       \<or> (\<exists>resp. handleChat_try req env kv clock kb reply = (Inr resp, kv', [])
              \<and> (status resp = 429 \<and> \<not> allowed r \<or> status resp = 200 \<and> allowed r
                    \<and> retrieveEntries message kb 5 = [] \<and> response_message resp = Some NO_MATCH_RESPONSE)
              \<and> cors_tail req resp)
       \<or> (\<exists>ctx. allowed r \<and> retrieveEntries message kb 5 \<noteq> []
              \<and> formatEntriesForContext (retrieveEntries message kb 5) = Inr ctx)"
proof -
  from chat_message_textD [OF v] obtain b where b: "request_json req = Some b"
    and m: "js_get (Some b) ''message'' = Inr (Some (JString message))"
    and m1: "message \<noteq> []" and m2: "length (trim message) \<noteq> 0"
    by blast
  show ?thesis
  proof (cases "allowed r")
    case False
    then show ?thesis
      using m1 m2
      by (cases "retryAfter r")
         (simp_all add: handleChat_try_def Let_def b m rl cors_tail_intros)
  next
    case True
    show ?thesis
    proof (cases "retrieveEntries message kb 5 = []")
      case True
      with \<open>allowed r\<close> m1 m2 show ?thesis
        by (simp add: handleChat_try_def Let_def b m rl cors_tail_intros response_message_def)
    next
      case False
      show ?thesis
      proof (cases "formatEntriesForContext (retrieveEntries message kb 5)")
        case (Inl e)
        with False \<open>allowed r\<close> m1 m2 show ?thesis
          by (simp add: handleChat_try_def Let_def b m rl)
      next
        case (Inr ctx)
        with False \<open>allowed r\<close> show ?thesis by blast
      qed
    qed
  qed
qed


lemma fetch_no_signal:
  "signal init = None \<Longrightarrow>
     fetch init reply = (case outcome reply of NetworkFailure \<Rightarrow> Inl TypeError | HttpReply r \<Rightarrow> Inr r)"
  by (simp add: fetch_def)

lemma generateResponse_calls:
  "length (snd (generateResponse userMessage ragContext apiKey options reply)) \<le> 1
 \<and> (\<forall>c \<in> set (snd (generateResponse userMessage ragContext apiKey options reply)).
        signal (call_init c) = None)"
  by (simp add: generateResponse_def Let_def split: provider_lookup.split)

lemma generateResponse_latency:
  "generateResponse userMessage ragContext apiKey options (reply\<lparr>latency_ms := l\<rparr>)
     = generateResponse userMessage ragContext apiKey options reply"
  by (simp add: generateResponse_def Let_def fetch_no_signal split: provider_lookup.split)

lemma generateResponse_success:
  assumes "fst (generateResponse userMessage ragContext apiKey options reply) = Inr text"
  shows "\<exists>config r data.
           PROVIDERS (or_empty (or_else (provider options) (Some ''openai''))) = Configured config
         \<and> outcome reply = HttpReply r \<and> ok r \<and> http_json r = Some data
         \<and> extractResponse config data = Inr text"
  using assms
  by (auto simp add: generateResponse_def Let_def fetch_no_signal
      split: provider_lookup.splits fetch_outcome.splits if_splits option.splits)

lemma generateResponse_failure:
  assumes "outcome reply = NetworkFailure
         \<or> (\<exists>r. outcome reply = HttpReply r \<and> (\<not> ok r \<or> http_json r = None))"
  shows "\<exists>err. fst (generateResponse userMessage ragContext apiKey options reply) = Inl err"
proof (cases "fst (generateResponse userMessage ragContext apiKey options reply)")
  case (Inl err)
  then show ?thesis by blast
next
  case (Inr answerText)
  from generateResponse_success [OF this] assms show ?thesis by auto
qed

lemma extractResponse_empty:
  "openai_extractResponse (JObject [(''choices'', JArray [])]) = Inl (Error ''No response from OpenAI API'')"
  "openai_extractResponse (JObject []) = Inl (Error ''No response from OpenAI API'')"
  "anthropic_extractResponse (JObject [(''content'', JArray [])]) = Inl (Error ''No response from Anthropic API'')"
  "anthropic_extractResponse (JObject []) = Inl (Error ''No response from Anthropic API'')"
  by (simp_all add: openai_extractResponse_def anthropic_extractResponse_def)


lemma handleChat_of_try:
  "handleChat_try req env kv clock kb reply = (Inr resp, kv', calls) \<Longrightarrow>
     handleChat req env kv clock kb reply = (resp, kv', calls)"
  "handleChat_try req env kv clock kb reply = (Inl err, kv', calls) \<Longrightarrow>
     handleChat req env kv clock kb reply =
       (\<lparr>status = 500,
         headers = (''Content-Type'', ''application/json'') # getCorsHeaders (headers_get req ''Origin''),
         body = JsonBody (JObject
                  [(''error'', JString ''Internal server error. Please try again.''),
                   (''message'', JString getFallbackResponse)])\<rparr>, kv', calls)"
  by (simp_all add: handleChat_def)

lemma handleChat_generated:
  assumes "chat_message_text req = Some message"
    and "checkRateLimit (getSessionId req) (getClientIP req) kv (rateLimitNow clock) = (r, kv')"
    and "allowed r"
    and "retrieveEntries message kb 5 \<noteq> []"
    and "formatEntriesForContext (retrieveEntries message kb 5) = Inr ctx"
    and "generateResponse message ctx (chat_api_key env) (chat_options env) reply = (generated, calls)"
  shows "\<exists>resp. handleChat req env kv clock kb reply = (resp, kv', calls)
           \<and> status resp = 200 \<and> cors_tail req resp
           \<and> response_message resp =
               Some (case generated of Inl error \<Rightarrow> getFallbackResponse | Inr answerText \<Rightarrow> answerText)"
proof -
  from handleChat_try_generated [OF assms] obtain resp
    where t: "handleChat_try req env kv clock kb reply = (Inr resp, kv', calls)"
      and s: "status resp = 200"
      and h: "headers resp = (''Content-Type'', ''application/json'') # getCorsHeaders (headers_get req ''Origin'')"
      and m: "response_message resp =
               Some (case generated of Inl error \<Rightarrow> getFallbackResponse | Inr answerText \<Rightarrow> answerText)"
    by blast
  have "cors_tail req resp"
    unfolding cors_tail_def using h by (intro exI [where x = "[(''Content-Type'', ''application/json'')]"]) simp
  with handleChat_of_try(1) [OF t] s m show ?thesis by blast
qed

lemma handleChat_summary:
  "\<exists>resp kv' calls. handleChat req env kv clock kb reply = (resp, kv', calls)
      \<and> cors_tail req resp
      \<and> (calls = [] \<or>
          (\<exists>message ctx. calls = snd (generateResponse message ctx (chat_api_key env) (chat_options env) reply)))"
proof (cases "chat_message_text req")
  case None
  from handleChat_try_invalid [OF this, of env kv clock kb reply] show ?thesis
  proof (elim disjE exE conjE)
    fix err
    assume "handleChat_try req env kv clock kb reply = (Inl err, kv, [])"
    from handleChat_of_try(2) [OF this] show ?thesis
      by (simp add: cors_tail_intros)
  next
    fix resp
    assume "handleChat_try req env kv clock kb reply = (Inr resp, kv, [])" and "cors_tail req resp"
    with handleChat_of_try(1) show ?thesis by simp
  qed
next
  case (Some message)
  obtain r kv' where rl: "checkRateLimit (getSessionId req) (getClientIP req) kv (rateLimitNow clock) = (r, kv')"
    by (cases "checkRateLimit (getSessionId req) (getClientIP req) kv (rateLimitNow clock)")
  from handleChat_try_valid [OF Some rl, of env kb reply]
  consider (err) err where "handleChat_try req env kv clock kb reply = (Inl err, kv', [])"
    | (early) resp where "handleChat_try req env kv clock kb reply = (Inr resp, kv', [])"
        "cors_tail req resp"
    | (gen) ctx where "allowed r" "retrieveEntries message kb 5 \<noteq> []"
        "formatEntriesForContext (retrieveEntries message kb 5) = Inr ctx"
    by blast
  then show ?thesis
  proof cases
    case err
    from handleChat_of_try(2) [OF this] show ?thesis
      by (simp add: cors_tail_intros)
  next
    case early
    with handleChat_of_try(1) show ?thesis by simp
  next
    case gen
    obtain generated calls
      where g: "generateResponse message ctx (chat_api_key env) (chat_options env) reply = (generated, calls)"
      by (cases "generateResponse message ctx (chat_api_key env) (chat_options env) reply")
    from handleChat_generated [OF Some rl gen g] g show ?thesis
      by (metis snd_conv)
  qed
qed

lemma handleChat_latency:
  "handleChat req env kv clock kb (reply\<lparr>latency_ms := l\<rparr>) = handleChat req env kv clock kb reply"
  unfolding handleChat_def handleChat_try_def generateResponse_latency ..

lemma handleRequest_summary:
  "\<exists>resp kv' calls. handleRequest req env kv clock kb st reply = (resp, kv', calls)
      \<and> cors_tail req resp
      \<and> (calls = [] \<or>
          (\<exists>message ctx. calls = snd (generateResponse message ctx (chat_api_key env) (chat_options env) reply)))"
proof -
  consider (options) "request_method req = ''OPTIONS''"
    | (health) "request_method req \<noteq> ''OPTIONS''" "request_method req = ''GET'' \<and> request_pathname req = ''/health''"
    | (chat) "request_method req \<noteq> ''OPTIONS''" "\<not> (request_method req = ''GET'' \<and> request_pathname req = ''/health'')"
        "request_method req = ''POST'' \<and> request_pathname req = ''/chat''"
    | (other) "request_method req \<noteq> ''OPTIONS''" "\<not> (request_method req = ''GET'' \<and> request_pathname req = ''/health'')"
        "\<not> (request_method req = ''POST'' \<and> request_pathname req = ''/chat'')"
    by blast
  then show ?thesis
  proof cases
    case options
    then show ?thesis by (simp add: handleRequest_def cors_tail_intros)
  next
    case health
    then show ?thesis by (auto simp add: handleRequest_def Let_def cors_tail_intros)
  next
    case chat
    then have "handleRequest req env kv clock kb st reply = handleChat req env kv clock kb reply"
      by (auto simp add: handleRequest_def Let_def)
    with handleChat_summary [of req env kv clock kb reply] show ?thesis by simp
  next
    case other
    then show ?thesis by (auto simp add: handleRequest_def Let_def cors_tail_intros)
  qed
qed

lemma handleRequest_latency:
  "handleRequest req env kv clock kb st (reply\<lparr>latency_ms := l\<rparr>) = handleRequest req env kv clock kb st reply"
  unfolding handleRequest_def handleChat_latency ..

lemma hd_ALLOWED_ORIGINS: "ALLOWED_ORIGINS ! 0 = ''https://yoursite.com''"
  by (simp add: ALLOWED_ORIGINS_def)

lemma cors_tail_header:
  assumes "cors_tail req resp"
  shows "header resp ''Access-Control-Allow-Origin'' =
     Some (case headers_get req ''Origin'' of
             None \<Rightarrow> ''https://yoursite.com''
           | Some orig \<Rightarrow> if \<exists>allowed \<in> set ALLOWED_ORIGINS. prefix allowed orig then orig
                          else ''https://yoursite.com'')"
proof -
  from assms obtain pre where h: "headers resp = pre @ getCorsHeaders (headers_get req ''Origin'')"
    and n: "''Access-Control-Allow-Origin'' \<notin> fst ` set pre"
    unfolding cors_tail_def by blast
  from n have "map_of pre ''Access-Control-Allow-Origin'' = None"
    by (simp add: map_of_eq_None_iff)
  then have "header resp ''Access-Control-Allow-Origin'' =
      map_of (getCorsHeaders (headers_get req ''Origin'')) ''Access-Control-Allow-Origin''"
    by (simp add: header_def h map_add_def)
  also have "\<dots> = Some (case headers_get req ''Origin'' of
             None \<Rightarrow> ''https://yoursite.com''
           | Some orig \<Rightarrow> if \<exists>allowed \<in> set ALLOWED_ORIGINS. prefix allowed orig then orig
                          else ''https://yoursite.com'')"
    by (cases "headers_get req ''Origin''")
       (simp_all add: getCorsHeaders_def Let_def hd_ALLOWED_ORIGINS list_ex_iff startsWith_def)
  finally show ?thesis .
qed


lemma set_retrieveEntries: "set (retrieveEntries q kb n) \<subseteq> set kb"
proof (cases "extractKeywords q = []")
  case True
  then show ?thesis
    by (auto simp add: retrieveEntries_no_keywords dest: set_slice0)
next
  case False
  then show ?thesis
    by (auto simp add: retrieveEntries_keywords set_ranked dest: set_slice0)
qed

lemma formatEntriesForContext_well_formed:
  assumes "list_all well_formed es"
  shows "\<exists>ctx. formatEntriesForContext es = Inr ctx"
  using map_entries_markers [OF assms, of 0] by (auto simp add: formatEntriesForContext_def)

lemma checkRateLimit_empty:
  "allowed (fst (checkRateLimit sessionId ipAddress Map.empty dateNow))"
proof -
  have "\<not> session_denies Map.empty (dateNow div 1000) sessionId"
    and "\<not> ip_denies Map.empty (dateNow div 1000) ipAddress"
    by (simp_all add: session_denies_def ip_denies_def kv_get_def)
  then show ?thesis by (simp add: checkRateLimit_both_admit)
qed

lemma example_message: "chat_message_text example_request = Some ''python''"
  by (simp add: chat_message_text_def example_request_def trim_def is_space_def)

lemma example_retrieved:
  "retrieveEntries ''python'' [ex_fact, ex_qa] 5 \<noteq> []"
proof -
  have "map entry_id (retrieveEntries ''python'' [ex_fact, ex_qa] 5) = [''q1'', ''f1'']"
    by code_simp
  then show ?thesis by auto
qed

lemma example_context:
  "\<exists>ctx. formatEntriesForContext (retrieveEntries ''python'' [ex_fact, ex_qa] 5) = Inr ctx"
proof -
  have "list_all well_formed [ex_fact, ex_qa]" by code_simp
  with set_retrieveEntries [of "''python''" "[ex_fact, ex_qa]" 5]
  have "list_all well_formed (retrieveEntries ''python'' [ex_fact, ex_qa] 5)"
    unfolding list_all_iff by blast
  then show ?thesis by (rule formatEntriesForContext_well_formed)
qed

lemma example_provider:
  "chat_options example_env =
     \<lparr>provider = Some ''openai'', model = None, temperature = None, maxTokens = None\<rparr>"
  "chat_api_key example_env = Some ''sk-test''"
  by (simp_all add: chat_options_def chat_api_key_def example_env_def or_else_def or_empty_def
        truthy_def toLowerCase_def lower_char_def is_upper_def)

lemma example_generated_slow:
  "fst (generateResponse message ctx (chat_api_key example_env) (chat_options example_env) slow_reply)
     = Inr ''Hello''"
  by (simp add: example_provider generateResponse_def Let_def or_else_def or_empty_def truthy_def
        PROVIDERS_def openai_def fetch_no_signal slow_reply_def ok_def openai_extractResponse_def
        trim_def is_space_def)

lemma example_generated_failing:
  "\<exists>err. fst (generateResponse message ctx (chat_api_key example_env) (chat_options example_env)
              failing_reply) = Inl err"
  by (rule generateResponse_failure) (simp add: failing_reply_def ok_def)


subsection \<open>CORS\<close>

text \<open>
  Claim C8. For every request, whatever the worker answers (preflight, health, the chat
  responses 200, 400, 429 and 500, or 404), the \<^verbatim>\<open>Access-Control-Allow-Origin\<close> header
  of the response is the request's \<^verbatim>\<open>Origin\<close> exactly when some entry of
  \<open>ALLOWED_ORIGINS\<close> is a prefix of it, and is the first entry of the list when no entry
  is a prefix of it or the request has no \<^verbatim>\<open>Origin\<close> header.
\<close>

theorem cors_origin_on_every_response:
  "(let origin = headers_get req ''Origin'';
        resp = fst (handleRequest req env kv clock kb st reply);
        acao = header resp ''Access-Control-Allow-Origin''
    in (\<forall>orig. origin = Some orig \<longrightarrow>
          (acao = Some orig \<longleftrightarrow> (\<exists>allowed \<in> set ALLOWED_ORIGINS. prefix allowed orig)))
     \<and> (origin = None \<or>
          (\<exists>orig. origin = Some orig \<and> \<not> (\<exists>allowed \<in> set ALLOWED_ORIGINS. prefix allowed orig))
          \<longrightarrow> acao = Some (ALLOWED_ORIGINS ! 0)))"
proof -
  from handleRequest_summary [of req env kv clock kb st reply]
  have "cors_tail req (fst (handleRequest req env kv clock kb st reply))" by auto
  note h = cors_tail_header [OF this]
  have first: "\<exists>allowed \<in> set ALLOWED_ORIGINS. prefix allowed ''https://yoursite.com''"
    by (simp add: ALLOWED_ORIGINS_def)
  show ?thesis
    unfolding Let_def h hd_ALLOWED_ORIGINS using first
    by (auto split: option.splits)
qed

theorem cors_origin_on_every_response_witness:
  "headers_get example_request ''Origin'' = Some ''http://localhost:3000''
 \<and> ''http://localhost:3000'' \<in> set ALLOWED_ORIGINS
 \<and> prefix ''http://localhost:3000'' ''http://localhost:3000''
 \<and> header (fst (handleRequest example_request example_env Map.empty example_clock [ex_fact, ex_qa]
                  \<lparr>totalEntries = 2, types = JObject []\<rparr> slow_reply))
      ''Access-Control-Allow-Origin'' = Some ''http://localhost:3000''
 \<and> headers_get (example_request\<lparr>request_headers := Map.empty\<rparr>) ''Origin'' = None
 \<and> header (fst (handleRequest (example_request\<lparr>request_headers := Map.empty\<rparr>) example_env
                  Map.empty example_clock [ex_fact, ex_qa]
                  \<lparr>totalEntries = 2, types = JObject []\<rparr> slow_reply))
      ''Access-Control-Allow-Origin'' = Some ''https://yoursite.com''"
proof -
  have l: "toLowerCase ''Origin'' = ''origin''" by code_simp
  have o: "headers_get example_request ''Origin'' = Some ''http://localhost:3000''"
    by (simp add: headers_get_def example_request_def l)
  have a: "\<exists>allowed \<in> set ALLOWED_ORIGINS. prefix allowed ''http://localhost:3000''"
    by (simp add: ALLOWED_ORIGINS_def)
  have n: "headers_get (example_request\<lparr>request_headers := Map.empty\<rparr>) ''Origin'' = None"
    by (simp add: headers_get_def)
  from cors_origin_on_every_response [of example_request example_env Map.empty example_clock "[ex_fact, ex_qa]"
      "\<lparr>totalEntries = 2, types = JObject []\<rparr>" slow_reply] o a
  have 1: "header (fst (handleRequest example_request example_env Map.empty example_clock [ex_fact, ex_qa]
                  \<lparr>totalEntries = 2, types = JObject []\<rparr> slow_reply))
      ''Access-Control-Allow-Origin'' = Some ''http://localhost:3000''"
    by (simp add: Let_def)
  from cors_origin_on_every_response [of "example_request\<lparr>request_headers := Map.empty\<rparr>" example_env Map.empty
      example_clock "[ex_fact, ex_qa]" "\<lparr>totalEntries = 2, types = JObject []\<rparr>" slow_reply] n
  have 2: "header (fst (handleRequest (example_request\<lparr>request_headers := Map.empty\<rparr>) example_env
                  Map.empty example_clock [ex_fact, ex_qa]
                  \<lparr>totalEntries = 2, types = JObject []\<rparr> slow_reply))
      ''Access-Control-Allow-Origin'' = Some ''https://yoursite.com''"
    by (simp add: Let_def hd_ALLOWED_ORIGINS)
  have m: "''http://localhost:3000'' \<in> set ALLOWED_ORIGINS"
    by (simp add: ALLOWED_ORIGINS_def)
  from o m 1 n 2 show ?thesis by simp
qed

subsection \<open>Generation failures\<close>

text \<open>
  Claim C6. For a chat request whose message passes validation, that the rate limiter
  allows and for which at least one entry is retrieved (and formatted), if
  \<open>generateResponse\<close> fails with any exception, the response of \<open>handleChat\<close> has status
  200 and its \<^verbatim>\<open>message\<close> is the fallback text. By \<open>generateResponse_failure\<close> a network
  failure, a status outside 200-299 and a body that is not JSON (an empty one included) are
  such failures, as is a reply without choices (\<open>extractResponse_empty\<close>). The router
  hands every \<^verbatim>\<open>POST /chat\<close> to \<open>handleChat\<close> and returns its response.
\<close>

theorem handleChat_generation_failure_fallback:
  assumes "chat_message_text req = Some message"
    and "allowed (fst (checkRateLimit (getSessionId req) (getClientIP req) kv (rateLimitNow clock)))"
    and "retrieveEntries message kb 5 \<noteq> []"
    and "formatEntriesForContext (retrieveEntries message kb 5) = Inr ragContext"
    and "fst (generateResponse message ragContext (chat_api_key env) (chat_options env) reply) = Inl err"
  shows "status (fst (handleChat req env kv clock kb reply)) = 200
       \<and> response_message (fst (handleChat req env kv clock kb reply)) = Some getFallbackResponse
       \<and> (request_method req = ''POST'' \<and> request_pathname req = ''/chat'' \<longrightarrow>
            handleRequest req env kv clock kb st reply = handleChat req env kv clock kb reply)"
proof -
  have route: "request_method req = ''POST'' \<and> request_pathname req = ''/chat'' \<longrightarrow>
      handleRequest req env kv clock kb st reply = handleChat req env kv clock kb reply"
    by (auto simp add: handleRequest_def Let_def)
  obtain r kv' where rl: "checkRateLimit (getSessionId req) (getClientIP req) kv (rateLimitNow clock) = (r, kv')"
    by (cases "checkRateLimit (getSessionId req) (getClientIP req) kv (rateLimitNow clock)")
  with assms(2) have a: "allowed r" by simp
  obtain calls where g: "generateResponse message ragContext (chat_api_key env) (chat_options env) reply
      = (Inl err, calls)"
    using assms(5)
    by (cases "generateResponse message ragContext (chat_api_key env) (chat_options env) reply") simp
  from handleChat_generated [OF assms(1) rl a assms(3,4) g] route show ?thesis by auto
qed

theorem handleChat_generation_failure_fallback_witness:
  "chat_message_text example_request = Some ''python''
 \<and> allowed (fst (checkRateLimit (getSessionId example_request) (getClientIP example_request)
                   Map.empty (rateLimitNow example_clock)))
 \<and> retrieveEntries ''python'' [ex_fact, ex_qa] 5 \<noteq> []
 \<and> (\<exists>ragContext err.
       formatEntriesForContext (retrieveEntries ''python'' [ex_fact, ex_qa] 5) = Inr ragContext
     \<and> fst (generateResponse ''python'' ragContext (chat_api_key example_env)
               (chat_options example_env) failing_reply) = Inl err)
 \<and> status (fst (handleChat example_request example_env Map.empty example_clock [ex_fact, ex_qa]
                  failing_reply)) = 200
 \<and> response_message (fst (handleChat example_request example_env Map.empty example_clock
                  [ex_fact, ex_qa] failing_reply)) = Some getFallbackResponse"
proof -
  from example_context obtain ctx
    where f: "formatEntriesForContext (retrieveEntries ''python'' [ex_fact, ex_qa] 5) = Inr ctx"
    by blast
  from example_generated_failing obtain err
    where g: "fst (generateResponse ''python'' ctx (chat_api_key example_env)
               (chat_options example_env) failing_reply) = Inl err"
    by blast
  note a = checkRateLimit_empty [of "getSessionId example_request" "getClientIP example_request"
      "rateLimitNow example_clock"]
  from handleChat_generation_failure_fallback [OF example_message a example_retrieved f g]
    example_message a example_retrieved f g
  show ?thesis by blast
qed


subsection \<open>Provider calls\<close>

text \<open>
  Claim C3, as amended. The worker makes at most one call to the provider per request and
  never repeats it; the call carries no timeout signal, so the worker's answer is the same
  whatever the latency of the provider's reply; and when the call fails, the fallback text
  is returned with status 200, still after that single call.
\<close>

theorem provider_call_single_and_untimed:
  "(case handleRequest req env kv clock kb st reply of
      (resp, kv', calls) \<Rightarrow>
        length calls \<le> 1
      \<and> (\<forall>c \<in> set calls. signal (call_init c) = None)
      \<and> handleRequest req env kv clock kb st (reply\<lparr>latency_ms := l\<rparr>) = (resp, kv', calls))
 \<and> (\<forall>message ragContext err.
        chat_message_text req = Some message
      \<and> allowed (fst (checkRateLimit (getSessionId req) (getClientIP req) kv (rateLimitNow clock)))
      \<and> retrieveEntries message kb 5 \<noteq> []
      \<and> formatEntriesForContext (retrieveEntries message kb 5) = Inr ragContext
      \<and> fst (generateResponse message ragContext (chat_api_key env) (chat_options env) reply) = Inl err
      \<longrightarrow> (case handleChat req env kv clock kb reply of
             (resp, kv', calls) \<Rightarrow>
               status resp = 200 \<and> response_message resp = Some getFallbackResponse
             \<and> length calls \<le> 1))"
proof (intro conjI allI impI)
  from handleRequest_summary [of req env kv clock kb st reply] obtain resp kv' calls
    where h: "handleRequest req env kv clock kb st reply = (resp, kv', calls)"
      and c: "calls = [] \<or>
          (\<exists>message ctx. calls = snd (generateResponse message ctx (chat_api_key env) (chat_options env) reply))"
    by blast
  from c generateResponse_calls have "length calls \<le> 1 \<and> (\<forall>c \<in> set calls. signal (call_init c) = None)"
    by auto
  then show "case handleRequest req env kv clock kb st reply of
      (resp, kv', calls) \<Rightarrow>
        length calls \<le> 1
      \<and> (\<forall>c \<in> set calls. signal (call_init c) = None)
      \<and> handleRequest req env kv clock kb st (reply\<lparr>latency_ms := l\<rparr>) = (resp, kv', calls)"
    by (simp add: h handleRequest_latency)
next
  fix message ragContext err
  assume a: "chat_message_text req = Some message
      \<and> allowed (fst (checkRateLimit (getSessionId req) (getClientIP req) kv (rateLimitNow clock)))
      \<and> retrieveEntries message kb 5 \<noteq> []
      \<and> formatEntriesForContext (retrieveEntries message kb 5) = Inr ragContext
      \<and> fst (generateResponse message ragContext (chat_api_key env) (chat_options env) reply) = Inl err"
  obtain r kv' where rl: "checkRateLimit (getSessionId req) (getClientIP req) kv (rateLimitNow clock) = (r, kv')"
    by (cases "checkRateLimit (getSessionId req) (getClientIP req) kv (rateLimitNow clock)")
  with a have al: "allowed r" by simp
  obtain calls where g: "generateResponse message ragContext (chat_api_key env) (chat_options env) reply
      = (Inl err, calls)"
    using a
    by (cases "generateResponse message ragContext (chat_api_key env) (chat_options env) reply") simp
  from generateResponse_calls [of message ragContext "chat_api_key env" "chat_options env" reply] g
  have "length calls \<le> 1" by simp
  moreover from a have v: "chat_message_text req = Some message"
    and ne: "retrieveEntries message kb 5 \<noteq> []"
    and f: "formatEntriesForContext (retrieveEntries message kb 5) = Inr ragContext"
    by simp_all
  note handleChat_generated [OF v rl al ne f g]
  ultimately show "case handleChat req env kv clock kb reply of
             (resp, kv', calls) \<Rightarrow>
               status resp = 200 \<and> response_message resp = Some getFallbackResponse
             \<and> length calls \<le> 1"
    by auto
qed

lemma example_calls_slow:
  "map (signal \<circ> call_init)
     (snd (generateResponse message ctx (chat_api_key example_env) (chat_options example_env) slow_reply))
     = [None]"
  by (simp add: example_provider generateResponse_def Let_def or_else_def or_empty_def truthy_def
        PROVIDERS_def)

text \<open>
  The claim as stated fails: a reply that takes 20 seconds is used, not replaced by the
  fallback text, and the init object of the call has no \<^verbatim>\<open>signal\<close>. The 15-second
  timeout of the repository is on the widget's request to the worker.
\<close>

theorem provider_call_has_no_timeout:
  "latency_ms slow_reply = 20000
 \<and> response_message (fst (handleChat example_request example_env Map.empty example_clock
                           [ex_fact, ex_qa] slow_reply)) = Some ''Hello''
 \<and> getFallbackResponse \<noteq> ''Hello''
 \<and> map (signal \<circ> call_init)
      (snd (snd (handleChat example_request example_env Map.empty example_clock
                   [ex_fact, ex_qa] slow_reply))) = [None]
 \<and> signal (sendMessageToAPI_init ''python'' ''s1'' 1) = Some 15000"
proof -
  from example_context obtain ctx
    where f: "formatEntriesForContext (retrieveEntries ''python'' [ex_fact, ex_qa] 5) = Inr ctx"
    by blast
  obtain r kv' where rl: "checkRateLimit (getSessionId example_request) (getClientIP example_request)
      Map.empty (rateLimitNow example_clock) = (r, kv')"
    by (cases "checkRateLimit (getSessionId example_request) (getClientIP example_request)
      Map.empty (rateLimitNow example_clock)")
  with checkRateLimit_empty [of "getSessionId example_request" "getClientIP example_request"
      "rateLimitNow example_clock"]
  have a: "allowed r" by simp
  obtain calls where g: "generateResponse ''python'' ctx (chat_api_key example_env)
      (chat_options example_env) slow_reply = (Inr ''Hello'', calls)"
    using example_generated_slow [of "''python''" ctx]
    by (cases "generateResponse ''python'' ctx (chat_api_key example_env)
      (chat_options example_env) slow_reply") simp
  with example_calls_slow [of "''python''" ctx]
  have c: "map (signal \<circ> call_init) calls = [None]" by simp
  from handleChat_generated [OF example_message rl a example_retrieved f g] c
  have "response_message (fst (handleChat example_request example_env Map.empty example_clock
                           [ex_fact, ex_qa] slow_reply)) = Some ''Hello''
      \<and> map (signal \<circ> call_init)
          (snd (snd (handleChat example_request example_env Map.empty example_clock
                   [ex_fact, ex_qa] slow_reply))) = [None]"
    by auto
  moreover have "latency_ms slow_reply = 20000" by (simp add: slow_reply_def)
  moreover have "getFallbackResponse \<noteq> ''Hello''" by (simp add: getFallbackResponse_def)
  moreover have "signal (sendMessageToAPI_init ''python'' ''s1'' 1) = Some 15000"
    by (simp add: sendMessageToAPI_init_def)
  ultimately show ?thesis by blast
qed

theorem provider_call_single_and_untimed_witness:
  "length (snd (snd (handleRequest example_request example_env Map.empty example_clock
                       [ex_fact, ex_qa] \<lparr>totalEntries = 2, types = JObject []\<rparr> failing_reply))) \<le> 1
 \<and> handleRequest example_request example_env Map.empty example_clock [ex_fact, ex_qa]
       \<lparr>totalEntries = 2, types = JObject []\<rparr> (failing_reply\<lparr>latency_ms := 99999\<rparr>)
     = handleRequest example_request example_env Map.empty example_clock [ex_fact, ex_qa]
       \<lparr>totalEntries = 2, types = JObject []\<rparr> failing_reply
 \<and> status (fst (handleChat example_request example_env Map.empty example_clock [ex_fact, ex_qa]
                  failing_reply)) = 200
 \<and> response_message (fst (handleChat example_request example_env Map.empty example_clock
                  [ex_fact, ex_qa] failing_reply)) = Some getFallbackResponse"
proof -
  from example_context obtain ctx
    where f: "formatEntriesForContext (retrieveEntries ''python'' [ex_fact, ex_qa] 5) = Inr ctx"
    by blast
  from example_generated_failing obtain err
    where g: "fst (generateResponse ''python'' ctx (chat_api_key example_env)
               (chat_options example_env) failing_reply) = Inl err"
    by blast
  note a = checkRateLimit_empty [of "getSessionId example_request" "getClientIP example_request"
      "rateLimitNow example_clock"]
  note T = provider_call_single_and_untimed [where req = example_request and env = example_env and kv = Map.empty
      and clock = example_clock and kb = "[ex_fact, ex_qa]"
      and st = "\<lparr>totalEntries = 2, types = JObject []\<rparr>" and reply = failing_reply and l = 99999]
  from T have 1: "length (snd (snd (handleRequest example_request example_env Map.empty example_clock
                       [ex_fact, ex_qa] \<lparr>totalEntries = 2, types = JObject []\<rparr> failing_reply))) \<le> 1
     \<and> handleRequest example_request example_env Map.empty example_clock [ex_fact, ex_qa]
       \<lparr>totalEntries = 2, types = JObject []\<rparr> (failing_reply\<lparr>latency_ms := 99999\<rparr>)
     = handleRequest example_request example_env Map.empty example_clock [ex_fact, ex_qa]
       \<lparr>totalEntries = 2, types = JObject []\<rparr> failing_reply"
    by (auto split: prod.splits)
  from T example_message a example_retrieved f g
  have 2: "status (fst (handleChat example_request example_env Map.empty example_clock [ex_fact, ex_qa]
                  failing_reply)) = 200
     \<and> response_message (fst (handleChat example_request example_env Map.empty example_clock
                  [ex_fact, ex_qa] failing_reply)) = Some getFallbackResponse"
    by (auto split: prod.splits)
  from 1 2 show ?thesis by blast
qed


end
